theory Spec2Isabelle
  imports Complex_Main "HOL-Library.AList"
begin

section \<open>Strings\<close>

text \<open>
  A JavaScript string is a sequence of UTF-16 code units. The names, messages and replies
  the program handles are modelled as \<^typ>\<open>string\<close>, whose characters are read as the
  code units U+0000 to U+00FF. The Finder comment of a file, whose trimmed length decides
  \<^verbatim>\<open>hasMetadata\<close>, is any text a user may have typed: it is kept as the list of its
  code units in full. The source's regular expressions and string methods are written out
  as list functions.
\<close>

type_synonym unit_string = "int list"

text \<open>
  The code units that \<^verbatim>\<open>trim\<close> strips and \<^verbatim>\<open>\s\<close> matches: the white space and the
  line terminators of the language (tab, line feed, vertical tab, form feed, carriage
  return, space, no-break space, U+1680, U+2000 to U+200A, U+2028, U+2029, U+202F, U+205F,
  U+3000 and U+FEFF).
\<close>

definition white_space :: "int \<Rightarrow> bool" where
  "white_space u =
     (u \<in> set [0x09, 0x0A, 0x0B, 0x0C, 0x0D, 0x20, 0xA0, 0x1680, 0x2028, 0x2029, 0x202F,
               0x205F, 0x3000, 0xFEFF] \<or>
      (0x2000 \<le> u \<and> u \<le> 0x200A))"

definition trim_units :: "unit_string \<Rightarrow> unit_string" where
  "trim_units s = rev (dropWhile white_space (rev (dropWhile white_space s)))"

definition is_space :: "char \<Rightarrow> bool" where
  "is_space c = white_space (of_char c)"

definition trim :: "string \<Rightarrow> string" where
  "trim s = rev (dropWhile is_space (rev (dropWhile is_space s)))"

text \<open>
  \<^verbatim>\<open>toLowerCase\<close> on the code units up to U+00FF: the letters A to Z, and the letters
  U+00C0 to U+00DE but for the multiplication sign U+00D7, move up by 32.
\<close>

definition is_upper :: "char \<Rightarrow> bool" where
  "is_upper c =
     ((65 \<le> (of_char c :: nat) \<and> (of_char c :: nat) \<le> 90) \<or>
      (192 \<le> (of_char c :: nat) \<and> (of_char c :: nat) \<le> 222 \<and> (of_char c :: nat) \<noteq> 215))"

definition lower_char :: "char \<Rightarrow> char" where
  "lower_char c = (if is_upper c then char_of ((of_char c :: nat) + 32) else c)"

definition toLowerCase :: "string \<Rightarrow> string" where
  "toLowerCase s = map lower_char s"

definition endsWith :: "string \<Rightarrow> string \<Rightarrow> bool" where
  "endsWith s suffix = (length suffix \<le> length s \<and> drop (length s - length suffix) s = suffix)"

definition startsWith :: "string \<Rightarrow> string \<Rightarrow> bool" where
  "startsWith s p = (take (length p) s = p)"

fun includes_str :: "string \<Rightarrow> string \<Rightarrow> bool" where
  "includes_str [] sub = (sub = [])"
| "includes_str (c # s) sub = (startsWith (c # s) sub \<or> includes_str s sub)"

section \<open>Slug sanitization in generateShortName\<close>

text \<open>
  \<^verbatim>\<open>response.choices[0].message.content.trim().toLowerCase()
     .replace(/[^a-z0-9-]/g, "-").replace(/-+/g, "-").replace(/^-|-$/g, "")\<close>
\<close>

definition slug_char :: "char \<Rightarrow> bool" where
  "slug_char c =
     (let n = (of_char c :: nat)
      in (97 \<le> n \<and> n \<le> 122) \<or> (48 \<le> n \<and> n \<le> 57) \<or> c = CHR ''-'')"

definition replace_unsafe :: "string \<Rightarrow> string" where
  "replace_unsafe s = map (\<lambda>c. if slug_char c then c else CHR ''-'') s"

fun collapse_hyphens :: "string \<Rightarrow> string" where
  "collapse_hyphens (c # d # s) =
     (if c = CHR ''-'' \<and> d = CHR ''-'' then collapse_hyphens (d # s)
      else c # collapse_hyphens (d # s))"
| "collapse_hyphens s = s"

definition strip_leading_hyphen :: "string \<Rightarrow> string" where
  "strip_leading_hyphen s = (case s of [] \<Rightarrow> [] | c # r \<Rightarrow> if c = CHR ''-'' then r else s)"

definition strip_trailing_hyphen :: "string \<Rightarrow> string" where
  "strip_trailing_hyphen s = (if s \<noteq> [] \<and> last s = CHR ''-'' then butlast s else s)"

text \<open>
  \<^verbatim>\<open>/^-|-$/g\<close> removes one hyphen at the start and, from what is left, one at the end.
\<close>

definition strip_edge_hyphens :: "string \<Rightarrow> string" where
  "strip_edge_hyphens s = strip_trailing_hyphen (strip_leading_hyphen s)"

definition sanitize :: "string \<Rightarrow> string" where
  "sanitize s =
     strip_edge_hyphens (collapse_hyphens (replace_unsafe (toLowerCase (trim s))))"

text \<open>A string with no two hyphens in a row.\<close>

fun no_double_hyphen :: "string \<Rightarrow> bool" where
  "no_double_hyphen (c # d # s) = (\<not> (c = CHR ''-'' \<and> d = CHR ''-'') \<and> no_double_hyphen (d # s))"
| "no_double_hyphen s = True"

definition clean_slug :: "string \<Rightarrow> bool" where
  "clean_slug s =
     (list_all slug_char s \<and> no_double_hyphen s \<and>
      (s = [] \<or> (hd s \<noteq> CHR ''-'' \<and> last s \<noteq> CHR ''-'')))"

section \<open>JavaScript values\<close>

text \<open>
  A JavaScript number is kept as the exact value of the double, or one of the three
  special values. Comparisons with \<open>NaN\<close> are false, as in the language.
\<close>

datatype jsnum = Fin rat | PosInf | NegInf | NaN

fun js_lt :: "jsnum \<Rightarrow> jsnum \<Rightarrow> bool" where
  "js_lt (Fin a) (Fin b) = (a < b)"
| "js_lt (Fin a) PosInf = True"
| "js_lt NegInf (Fin b) = True"
| "js_lt NegInf PosInf = True"
| "js_lt a b = False"

definition js_gt :: "jsnum \<Rightarrow> jsnum \<Rightarrow> bool" where
  "js_gt a b = js_lt b a"

fun is_integer :: "jsnum \<Rightarrow> bool" where
  "is_integer (Fin r) = (of_int \<lfloor>r\<rfloor> = r)"
| "is_integer n = False"

text \<open>
  What \<^verbatim>\<open>JSON.parse\<close> returns. An object is its table of properties. An array is an
  object too, but the model keeps none of its named properties: the code below reads a
  named property of the parsed value, finds none on an array and rejects it at once.
\<close>

datatype json =
    JNull
  | JBool bool
  | JNum jsnum
  | JStr string
  | JArr "json list"
  | JObj "(string \<times> json) list"

datatype error = Error string

text \<open>Reading a property: \<open>None\<close> is \<^verbatim>\<open>undefined\<close>; on \<^verbatim>\<open>null\<close> the read throws.\<close>

fun get_prop :: "json \<Rightarrow> string \<Rightarrow> error + json option" where
  "get_prop JNull k = Inl (Error ''TypeError: Cannot read properties of null'')"
| "get_prop (JObj ps) k = Inr (map_of ps k)"
| "get_prop v k = Inr None"

text \<open>
  Assigning a property. The file is not in strict mode, so an assignment to a property of
  a number, string or boolean is dropped without an error; on \<^verbatim>\<open>null\<close> it throws.
\<close>

fun set_prop :: "json \<Rightarrow> string \<Rightarrow> json \<Rightarrow> error + json" where
  "set_prop JNull k x = Inl (Error ''TypeError: Cannot set properties of null'')"
| "set_prop (JObj ps) k x = Inr (JObj (AList.update k x ps))"
| "set_prop v k x = Inr v"

text \<open>Truthiness of a value that may be \<^verbatim>\<open>undefined\<close>.\<close>

fun truthy :: "json option \<Rightarrow> bool" where
  "truthy None = False"
| "truthy (Some JNull) = False"
| "truthy (Some (JBool b)) = b"
| "truthy (Some (JNum n)) = (n \<noteq> Fin 0 \<and> n \<noteq> NaN)"
| "truthy (Some (JStr s)) = (s \<noteq> [])"
| "truthy (Some (JArr xs)) = True"
| "truthy (Some (JObj ps)) = True"

fun is_boolean :: "json option \<Rightarrow> bool" where
  "is_boolean (Some (JBool b)) = True"
| "is_boolean v = False"

fun is_number :: "json option \<Rightarrow> bool" where
  "is_number (Some (JNum n)) = True"
| "is_number v = False"

text \<open>\<^verbatim>\<open>v < c\<close> and \<^verbatim>\<open>v > c\<close> for a value already known to be a number.\<close>

fun num_lt :: "json option \<Rightarrow> jsnum \<Rightarrow> bool" where
  "num_lt (Some (JNum n)) c = js_lt n c"
| "num_lt v c = False"

fun num_gt :: "json option \<Rightarrow> jsnum \<Rightarrow> bool" where
  "num_gt (Some (JNum n)) c = js_gt n c"
| "num_gt v c = False"


section \<open>The outside world of one run\<close>

text \<open>
  The transcoder, the AI service, Finder and the operating system are outside the program.
  What each of them answers during one run of \<^verbatim>\<open>processVideo\<close> is a field of this record;
  \<open>Inl\<close> is the error the call rejects with.
  \<^item> \<open>probe\<close>: ffprobe's duration of the asset;
  \<^item> \<open>initial_reply\<close>: the chat completion for the probe frame (after the frame was
    extracted and read), as \<^verbatim>\<open>JSON.parse\<close> reads its text once the markdown fence is
    stripped; \<open>Inr None\<close> when the text is null or does not parse; a reply without a
    first choice ends in a TypeError and is an \<open>Inl\<close> here;
  \<^item> \<open>transcription\<close>: the text the transcription service returns;
  \<^item> \<open>keyframes\<close>: the error of the key frame extraction, if any;
  \<^item> \<open>frame_description\<close>: the description of key frame \<open>i\<close>;
  \<^item> \<open>importance_reply\<close>: the chat completion for the importance prompt, like
    \<open>initial_reply\<close>;
  \<^item> \<open>name_reply\<close>: the text of the chat completion for the short name;
  \<^item> \<open>guid\<close>: what \<^verbatim>\<open>generateShortGuid\<close> draws;
  \<^item> \<open>now\<close>: the time stamp;
  \<^item> \<open>rename_error\<close>: the error of the operating system when it refuses the rename;
  \<^item> \<open>finder_get_ok\<close>, \<open>finder_set_ok\<close>: whether the script that reads, or sets, the
    comment runs through;
  \<^item> \<open>show_json\<close>: the language's conversion of a value to a string in a template.
\<close>

record services =
  probe :: "error + jsnum"
  initial_reply :: "error + json option"
  transcription :: "error + string"
  keyframes :: "error option"
  frame_description :: "nat \<Rightarrow> error + string"
  importance_reply :: "error + json option"
  name_reply :: "error + string"
  guid :: string
  now :: string
  rename_error :: "error option"
  finder_get_ok :: bool
  finder_set_ok :: bool
  show_json :: "json \<Rightarrow> string"

section \<open>Content analyzer\<close>

definition invalid_analysis :: "json \<Rightarrow> bool" where
  "invalid_analysis analysis =
     (case get_prop analysis ''description'' of
        Inl e \<Rightarrow> True
      | Inr description \<Rightarrow>
          \<not> truthy description \<or>
          (case get_prop analysis ''needsTranscript'' of
             Inl e \<Rightarrow> True
           | Inr needsTranscript \<Rightarrow>
               \<not> is_boolean needsTranscript \<or>
               (case get_prop analysis ''additionalKeyframes'' of
                  Inl e \<Rightarrow> True
                | Inr additionalKeyframes \<Rightarrow>
                    \<not> is_number additionalKeyframes \<or>
                    num_lt additionalKeyframes (Fin 0) \<or>
                    num_gt additionalKeyframes (Fin 4))))"

text \<open>
  The spread \<^verbatim>\<open>{ ...analysis, duration }\<close>: the properties of the analysis, with
  \<open>duration\<close> set last. Only an object gets here: the validation rejects every other
  value, since none has a \<open>description\<close>.
\<close>

fun with_duration :: "json \<Rightarrow> jsnum \<Rightarrow> json" where
  "with_duration (JObj ps) d = JObj (AList.update ''duration'' (JNum d) ps)"
| "with_duration v d = JObj [(''duration'', JNum d)]"

text \<open>
  The body of the \<^verbatim>\<open>try\<close> of \<^verbatim>\<open>analyzeInitialFrame\<close>, from the parsed reply on: the
  override for a duration above 5 seconds, then the validation.
\<close>

definition checked_analysis :: "jsnum \<Rightarrow> json \<Rightarrow> error + json" where
  "checked_analysis duration parsed =
     (case (if js_gt duration (Fin 5) then set_prop parsed ''needsTranscript'' (JBool True)
            else Inr parsed) of
        Inl e \<Rightarrow> Inl e
      | Inr analysis \<Rightarrow>
          if invalid_analysis analysis then Inl (Error ''Invalid response format from OpenAI'')
          else Inr (with_duration analysis duration))"

text \<open>Whatever is thrown inside the \<^verbatim>\<open>try\<close> is replaced by one error.\<close>

definition analyzeInitialFrame :: "services \<Rightarrow> error + json" where
  "analyzeInitialFrame sv =
     (case probe sv of
        Inl e \<Rightarrow> Inl e
      | Inr duration \<Rightarrow>
          (case initial_reply sv of
             Inl e \<Rightarrow> Inl e
           | Inr None \<Rightarrow> Inl (Error ''Failed to get valid analysis from OpenAI'')
           | Inr (Some parsed) \<Rightarrow>
               (case checked_analysis duration parsed of
                  Inl e \<Rightarrow> Inl (Error ''Failed to get valid analysis from OpenAI'')
                | Inr analysis \<Rightarrow> Inr analysis)))"

definition invalid_importance :: "json \<Rightarrow> bool" where
  "invalid_importance analysis =
     (case get_prop analysis ''importance'' of
        Inl e \<Rightarrow> True
      | Inr importance \<Rightarrow>
          \<not> truthy importance \<or>
          (case get_prop analysis ''reason'' of
             Inl e \<Rightarrow> True
           | Inr reason \<Rightarrow>
               \<not> truthy reason \<or>
               (case get_prop analysis ''fullDescription'' of
                  Inl e \<Rightarrow> True
                | Inr fullDescription \<Rightarrow>
                    \<not> truthy fullDescription \<or>
                    \<not> is_number importance \<or>
                    num_lt importance (Fin 1) \<or>
                    num_gt importance (Fin 9))))"

text \<open>
  \<^verbatim>\<open>determineImportance\<close>, from the reply on. The prompt it builds from the
  descriptions, the transcript and the duration goes to the service and has no other
  effect. The value returned is the parsed object itself.
\<close>

definition determineImportance :: "services \<Rightarrow> error + json" where
  "determineImportance sv =
     (case importance_reply sv of
        Inl e \<Rightarrow> Inl e
      | Inr None \<Rightarrow> Inl (Error ''Failed to get valid analysis from OpenAI'')
      | Inr (Some analysis) \<Rightarrow>
          if invalid_importance analysis
          then Inl (Error ''Failed to get valid analysis from OpenAI'')
          else Inr analysis)"

text \<open>The result of a property read that the validation has shown not to throw.\<close>

definition read_prop :: "json \<Rightarrow> string \<Rightarrow> json option" where
  "read_prop v k = (case get_prop v k of Inl e \<Rightarrow> None | Inr x \<Rightarrow> x)"

definition show_value :: "services \<Rightarrow> json option \<Rightarrow> string" where
  "show_value sv v = (case v of None \<Rightarrow> ''undefined'' | Some x \<Rightarrow> show_json sv x)"

text \<open>
  \<^verbatim>\<open>generateShortName\<close>: the sanitized reply between the importance and the random
  suffix.
\<close>

definition generateShortName :: "services \<Rightarrow> json option \<Rightarrow> error + string" where
  "generateShortName sv importance =
     (case name_reply sv of
        Inl e \<Rightarrow> Inl e
      | Inr content \<Rightarrow>
          Inr (show_value sv importance @ ''_'' @ sanitize content @ ''-'' @ guid sv))"


section \<open>Paths\<close>

text \<open>
  A path is the list of its components, the root first; \<^verbatim>\<open>path.join\<close> of a directory and
  a name appends the name, and \<^verbatim>\<open>path.resolve\<close> is the identity on such a path.
\<close>

type_synonym path = "string list"

definition dirname :: "path \<Rightarrow> path" where
  "dirname p = butlast p"

definition basename :: "path \<Rightarrow> string" where
  "basename p = (if p = [] then [] else last p)"

text \<open>
  \<^verbatim>\<open>path.extname\<close> of a file name: from the last dot on; empty when there is no dot, when
  the only dot is the first character, and for the name \<^verbatim>\<open>..\<close>.
\<close>

definition extname :: "string \<Rightarrow> string" where
  "extname n =
     (let k = length (takeWhile (\<lambda>c. c \<noteq> CHR ''.'') (rev n))
      in if k = length n \<or> Suc k = length n \<or> n = ''..'' then []
         else drop (length n - Suc k) n)"

section \<open>Metadata store\<close>

record summary =
  s_filename :: string
  s_original_name :: string
  s_rating :: "json option"
  s_reason :: "json option"
  s_duration_seconds :: "json option"
  s_description :: "json option"
  s_additional_descriptions :: "string list"
  s_transcript :: "string option"
  s_processed_at :: string

text \<open>The summary with the path \<^verbatim>\<open>writeSummaryFile\<close> adds to it.\<close>

record stored =
  st_summary :: summary
  st_path :: path

text \<open>
  The JSON file of a directory, as \<^verbatim>\<open>writeSummaryFile\<close> reads it: missing, blank or not
  parseable (the code then starts from an empty array); an array of records; or a JSON
  value that is not an array (on which \<^verbatim>\<open>push\<close> throws).
\<close>

datatype json_file = Unreadable | Records "stored list" | NotArray

text \<open>The array \<^verbatim>\<open>writeSummaryFile\<close> appends to: empty unless the file holds an array.\<close>

fun records_of :: "json_file \<Rightarrow> stored list" where
  "records_of (Records rs) = rs"
| "records_of f = []"

datatype event =
    Skipping path
  | RenamingTo string
  | CommentSet
  | FailedToSetComment
  | SuccessfullyProcessed string
  | ErrorProcessing error

text \<open>
  The state the orchestrator works on: which paths hold a file, the Finder comment of each
  path (empty when there is none), the text log and the JSON file of each target
  directory, and the console. A block of the text log is kept as the record it renders.
  Appending to the text log and rewriting the JSON file are taken to succeed; the scratch
  directory \<^verbatim>\<open>frames\<close> and the scratch audio file are not part of the state.
\<close>

record world =
  files :: "path \<Rightarrow> bool"
  comments :: "path \<Rightarrow> unit_string"
  txt_store :: "path \<Rightarrow> stored list"
  json_store :: "path \<Rightarrow> json_file"
  console :: "event list"

definition say :: "event \<Rightarrow> world \<Rightarrow> world" where
  "say e w = w\<lparr>console := console w @ [e]\<rparr>"

definition writeSummaryFile :: "world \<Rightarrow> summary \<Rightarrow> path \<Rightarrow> path \<Rightarrow> (error + unit) \<times> world" where
  "writeSummaryFile w summary newPath targetDir =
     (let summaryWithPath = \<lparr>st_summary = summary, st_path = newPath\<rparr>;
          w1 = w\<lparr>txt_store := (txt_store w)(targetDir := txt_store w targetDir @ [summaryWithPath])\<rparr>
      in case json_store w1 targetDir of
           NotArray \<Rightarrow> (Inl (Error ''TypeError: jsonContent.push is not a function''), w1)
         | Unreadable \<Rightarrow>
             (Inr (), w1\<lparr>json_store := (json_store w1)(targetDir := Records [summaryWithPath])\<rparr>)
         | Records jsonContent \<Rightarrow>
             (Inr (), w1\<lparr>json_store :=
                (json_store w1)(targetDir := Records (jsonContent @ [summaryWithPath]))\<rparr>))"

text \<open>
  \<^verbatim>\<open>hasMetadata\<close>: the comment as the script prints it, trimmed, is not empty; a script
  that fails (Finder not answering, no file at the path) is caught and counts as no
  comment.
\<close>

definition hasMetadata :: "services \<Rightarrow> world \<Rightarrow> path \<Rightarrow> bool" where
  "hasMetadata sv w filePath =
     (if finder_get_ok sv \<and> files w filePath then length (trim_units (comments w filePath)) > 0
      else False)"

text \<open>The cleaning of the comment text in \<^verbatim>\<open>setMacMetadataXattr\<close>.\<close>

function collapse_spaces :: "string \<Rightarrow> string" where
  "collapse_spaces [] = []"
| "collapse_spaces (c # s) =
     (if is_space c then CHR '' '' # collapse_spaces (dropWhile is_space s)
      else c # collapse_spaces s)"
  by pat_completeness auto
termination
  by (relation "measure length") (auto simp: length_dropWhile_le less_Suc_eq_le)

definition cleanSummary :: "string \<Rightarrow> string" where
  "cleanSummary summary =
     trim (collapse_spaces
       (map (\<lambda>c. if c \<in> set [CHR 0x0A, CHR 0x0D, CHR 0x09] then CHR '' '' else c)
         (map (\<lambda>c. if c \<in> set [CHR 0x5C, CHR 0x22, CHR 0x27] then CHR 0x27 else c) summary)))"

text \<open>
  \<^verbatim>\<open>setMacMetadataXattr\<close> catches every error of its scripts and only logs it. The
  comment is set when the first script runs through; the second script reads it back.
\<close>

definition setMacMetadataXattr :: "services \<Rightarrow> world \<Rightarrow> path \<Rightarrow> string \<Rightarrow> world" where
  "setMacMetadataXattr sv w filePath summary =
     (if finder_set_ok sv \<and> files w filePath
      then (let w1 = say CommentSet (w\<lparr>comments := (comments w)(filePath := map of_char (cleanSummary summary))\<rparr>)
            in if finder_get_ok sv then w1 else say FailedToSetComment w1)
      else say FailedToSetComment w)"

text \<open>
  \<^verbatim>\<open>fs.rename\<close>: fails when there is no file at the old path or the operating system
  refuses; otherwise the file, with its comment, is at the new path and no longer at the
  old one.
\<close>

definition rename :: "services \<Rightarrow> world \<Rightarrow> path \<Rightarrow> path \<Rightarrow> error + world" where
  "rename sv w oldPath newPath =
     (if \<not> files w oldPath then Inl (Error ''ENOENT: no such file or directory, rename'')
      else case rename_error sv of
             Some e \<Rightarrow> Inl e
           | None \<Rightarrow>
               Inr (w\<lparr>files := ((files w)(oldPath := False))(newPath := True),
                      comments := ((comments w)(oldPath := []))(newPath := comments w oldPath)\<rparr>))"

section \<open>Pipeline orchestrator\<close>

text \<open>
  The number of frames \<^verbatim>\<open>extractKeyframes\<close> returns for \<open>additionalKeyframes + 1\<close>:
  the turns of \<^verbatim>\<open>for (let i = 0; i < numFrames; i++)\<close>. It is called for a number
  above 0 only, and the validation has bounded that number by 4.
\<close>

fun frame_count :: "json option \<Rightarrow> nat" where
  "frame_count (Some (JNum (Fin r))) = nat \<lceil>r + 1\<rceil>"
| "frame_count v = 0"

fun describe_all :: "(nat \<Rightarrow> error + string) \<Rightarrow> nat list \<Rightarrow> error + string list" where
  "describe_all f [] = Inr []"
| "describe_all f (i # rest) =
     (case f i of
        Inl e \<Rightarrow> Inl e
      | Inr desc \<Rightarrow>
          (case describe_all f rest of Inl e \<Rightarrow> Inl e | Inr descs \<Rightarrow> Inr (desc # descs)))"

text \<open>\<open>transcript\<close> starts as the empty string and is replaced when a transcript is needed.\<close>

definition get_transcript :: "services \<Rightarrow> json option \<Rightarrow> error + string" where
  "get_transcript sv needsTranscript =
     (if truthy needsTranscript then transcription sv else Inr [])"

text \<open>The descriptions of the frames after the first, \<^verbatim>\<open>descriptions.slice(1)\<close>.\<close>

definition additional_descriptions :: "services \<Rightarrow> json option \<Rightarrow> error + string list" where
  "additional_descriptions sv additionalKeyframes =
     (if num_gt additionalKeyframes (Fin 0)
      then (case keyframes sv of
              Some e \<Rightarrow> Inl e
            | None \<Rightarrow> describe_all (frame_description sv) [1..<frame_count additionalKeyframes])
      else Inr [])"

record evidence =
  ev_duration :: "json option"
  ev_transcript :: string
  ev_descriptions :: "string list"
  ev_importance :: json
  ev_newFileName :: string

text \<open>The stages of \<^verbatim>\<open>processVideo\<close> before anything is written.\<close>

definition gather :: "services \<Rightarrow> path \<Rightarrow> error + evidence" where
  "gather sv videoPath =
     (case analyzeInitialFrame sv of
        Inl e \<Rightarrow> Inl e
      | Inr analysis \<Rightarrow>
     (case get_transcript sv (read_prop analysis ''needsTranscript'') of
        Inl e \<Rightarrow> Inl e
      | Inr transcript \<Rightarrow>
     (case additional_descriptions sv (read_prop analysis ''additionalKeyframes'') of
        Inl e \<Rightarrow> Inl e
      | Inr descs \<Rightarrow>
     (case determineImportance sv of
        Inl e \<Rightarrow> Inl e
      | Inr importance \<Rightarrow>
     (case generateShortName sv (read_prop importance ''importance'') of
        Inl e \<Rightarrow> Inl e
      | Inr shortName \<Rightarrow>
          Inr \<lparr>ev_duration = read_prop analysis ''duration'',
               ev_transcript = transcript,
               ev_descriptions = descs,
               ev_importance = importance,
               ev_newFileName = shortName @ extname (basename videoPath)\<rparr>)))))"

text \<open>The summary object; \<^verbatim>\<open>transcript || null\<close> is \<open>None\<close> for the empty string.\<close>

definition make_summary :: "services \<Rightarrow> path \<Rightarrow> evidence \<Rightarrow> summary" where
  "make_summary sv videoPath ev =
     \<lparr>s_filename = ev_newFileName ev,
      s_original_name = basename videoPath,
      s_rating = read_prop (ev_importance ev) ''importance'',
      s_reason = read_prop (ev_importance ev) ''reason'',
      s_duration_seconds = ev_duration ev,
      s_description = read_prop (ev_importance ev) ''fullDescription'',
      s_additional_descriptions = ev_descriptions ev,
      s_transcript = (if ev_transcript ev = [] then None else Some (ev_transcript ev)),
      s_processed_at = now sv\<rparr>"

definition comment_text :: "services \<Rightarrow> json \<Rightarrow> string" where
  "comment_text sv importance =
     show_value sv (read_prop importance ''fullDescription'') @ [CHR 0x0A, CHR 0x0A] @
     ''Importance: '' @ show_value sv (read_prop importance ''importance'') @ ''/9 - '' @
     show_value sv (read_prop importance ''reason'')"

datatype outcome = Skipped | Processed string

text \<open>
  The commit step: the summary is written to both stores, then the file is renamed, then
  the comment is set.
\<close>

definition commit :: "services \<Rightarrow> world \<Rightarrow> path \<Rightarrow> path \<Rightarrow> evidence \<Rightarrow> (error + outcome) \<times> world" where
  "commit sv w videoPath targetDir ev =
     (let newFileName = ev_newFileName ev;
          newPath = dirname videoPath @ [newFileName];
          summary = make_summary sv videoPath ev
      in case writeSummaryFile w summary newPath targetDir of
           (Inl e, w1) \<Rightarrow> (Inl e, w1)
         | (Inr u, w1) \<Rightarrow>
             (case rename sv (say (RenamingTo newFileName) w1) videoPath newPath of
                Inl e \<Rightarrow> (Inl e, say (RenamingTo newFileName) w1)
              | Inr w2 \<Rightarrow>
                  (Inr (Processed newFileName),
                   say (SuccessfullyProcessed newFileName)
                     (setMacMetadataXattr sv w2 newPath (comment_text sv (ev_importance ev))))))"

text \<open>
  \<^verbatim>\<open>processVideo\<close>. An error of any stage is logged and thrown again; what was written
  before it stays written.
\<close>

definition processVideo :: "services \<Rightarrow> world \<Rightarrow> path \<Rightarrow> bool \<Rightarrow> path \<Rightarrow> (error + outcome) \<times> world" where
  "processVideo sv w videoPath force targetDir =
     (if \<not> force \<and> hasMetadata sv w videoPath then (Inr Skipped, say (Skipping videoPath) w)
      else (case gather sv videoPath of
              Inl e \<Rightarrow> (Inl e, say (ErrorProcessing e) w)
            | Inr ev \<Rightarrow>
                (case commit sv w videoPath targetDir ev of
                   (Inl e, w1) \<Rightarrow> (Inl e, say (ErrorProcessing e) w1)
                 | (Inr r, w1) \<Rightarrow> (Inr r, w1))))"


section \<open>Compression stage\<close>

definition MAX_RETRIES :: nat where
  "MAX_RETRIES = 3"

definition RETRY_DELAY :: nat where
  "RETRY_DELAY = 5000"

type_synonym content = string

text \<open>
  What the outside answers during one call of \<^verbatim>\<open>compressVideo\<close>: whether the drive is
  accessible, the message of the error of \<^verbatim>\<open>fs.access\<close> and of ffprobe if they fail, and
  for the \<^verbatim>\<open>try\<close> block around the transcoder either the message of the error thrown in
  it or the content of the output file. The scratch directory \<^verbatim>\<open>temp_processing\<close>, which
  every call creates and removes again, is not modelled, and \<^verbatim>\<open>fs.statSync\<close> of the
  input, between ffprobe and the transcoder, is taken to succeed.
\<close>

record attempt =
  drive_accessible :: bool
  access_error :: "string option"
  ffprobe_error :: "string option"
  transcode :: "string + content"

text \<open>The test on the message in the \<^verbatim>\<open>catch\<close> block.\<close>

definition drive_issue :: "string \<Rightarrow> bool" where
  "drive_issue message =
     (includes_str message ''ECANCELED'' \<or> includes_str message ''read'' \<or>
      includes_str message ''I/O'' \<or> includes_str message ''operation canceled'')"

text \<open>
  The result of a call with all its retries: the error thrown or the content written to
  the output path, the delays waited for in milliseconds, and the number of calls made.
\<close>

record compression =
  c_result :: "error + content"
  c_delays :: "nat list"
  c_calls :: nat

definition thrown :: "error \<Rightarrow> compression" where
  "thrown e = \<lparr>c_result = Inl e, c_delays = [], c_calls = 1\<rparr>"

definition after_delay :: "compression \<Rightarrow> compression" where
  "after_delay r = r\<lparr>c_delays := RETRY_DELAY # c_delays r, c_calls := Suc (c_calls r)\<rparr>"

text \<open>
  \<^verbatim>\<open>compressVideo(inputPath, outputPath, retryCount)\<close>; \<open>answers n\<close> is what the outside
  answers during the call with \<open>retryCount = n\<close>.
\<close>

function compressVideo :: "string \<Rightarrow> (nat \<Rightarrow> attempt) \<Rightarrow> nat \<Rightarrow> compression" where
  "compressVideo inputPath answers retryCount =
     (if (includes_str inputPath '':'' \<or> startsWith inputPath ''/Volumes/'') \<and>
         \<not> drive_accessible (answers retryCount)
      then thrown (Error (''Drive not accessible for '' @ inputPath))
      else
        (case access_error (answers retryCount) of
           Some message \<Rightarrow>
             if retryCount \<ge> MAX_RETRIES
             then thrown (Error (''Failed to access input file after 3 attempts: '' @ message))
             else after_delay (compressVideo inputPath answers (retryCount + 1))
         | None \<Rightarrow>
             (case ffprobe_error (answers retryCount) of
                Some message \<Rightarrow>
                  if retryCount \<ge> MAX_RETRIES
                  then thrown (Error (''Failed to get video metadata after 3 attempts: '' @ message))
                  else after_delay (compressVideo inputPath answers (retryCount + 1))
              | None \<Rightarrow>
                  (case transcode (answers retryCount) of
                     Inr output \<Rightarrow> \<lparr>c_result = Inr output, c_delays = [], c_calls = 1\<rparr>
                   | Inl message \<Rightarrow>
                       if retryCount < MAX_RETRIES \<and> drive_issue message
                       then after_delay (compressVideo inputPath answers (retryCount + 1))
                       else thrown (Error message)))))"
  by pat_completeness auto
termination
  by (relation "measure (\<lambda>(inputPath, answers, retryCount). MAX_RETRIES - retryCount)") auto

declare compressVideo.simps [simp del]

text \<open>The call gets as far as the transcoder: the drive check, fs.access and ffprobe pass.\<close>

definition reaches_transcoder :: "string \<Rightarrow> attempt \<Rightarrow> bool" where
  "reaches_transcoder inputPath a =
     (((includes_str inputPath '':'' \<or> startsWith inputPath ''/Volumes/'') \<longrightarrow> drive_accessible a) \<and>
      access_error a = None \<and> ffprobe_error a = None)"

section \<open>File system\<close>

text \<open>
  The file system as a table from paths to files and directories (the first entry of a
  path counts). Its operations fail for the reasons of the file system itself only: a
  path that is missing, taken, or not empty.
\<close>

datatype node = File content | Dir

type_synonym fs = "(path \<times> node) list"

definition fs_exists :: "fs \<Rightarrow> path \<Rightarrow> bool" where
  "fs_exists fs p = (map_of fs p \<noteq> None)"

text \<open>\<open>is_under d p\<close>: the path \<open>p\<close> is \<open>d\<close> or lies below it; \<open>is_inside d p\<close>: it lies below.\<close>

definition is_under :: "path \<Rightarrow> path \<Rightarrow> bool" where
  "is_under d p = (take (length d) p = d)"

definition is_inside :: "path \<Rightarrow> path \<Rightarrow> bool" where
  "is_inside d p = (is_under d p \<and> p \<noteq> d)"

text \<open>\<^verbatim>\<open>fs.remove\<close>: the file, or the directory with all below it; nothing if it is missing.\<close>

definition fs_remove :: "fs \<Rightarrow> path \<Rightarrow> fs" where
  "fs_remove fs p = filter (\<lambda>(q, n). \<not> is_under p q) fs"

text \<open>\<^verbatim>\<open>fs.move\<close> of fs-extra, without the overwrite option.\<close>

definition fs_move :: "fs \<Rightarrow> path \<Rightarrow> path \<Rightarrow> error + fs" where
  "fs_move fs src dest =
     (if \<not> fs_exists fs src then Inl (Error ''ENOENT: no such file or directory'')
      else if fs_exists fs dest then Inl (Error ''dest already exists.'')
      else Inr (map (\<lambda>(q, n). if is_under src q then (dest @ drop (length src) q, n) else (q, n)) fs))"

definition fs_rmdir :: "fs \<Rightarrow> path \<Rightarrow> error + fs" where
  "fs_rmdir fs d =
     (case map_of fs d of
        None \<Rightarrow> Inl (Error ''ENOENT: no such file or directory'')
      | Some (File c) \<Rightarrow> Inl (Error ''ENOTDIR: not a directory'')
      | Some Dir \<Rightarrow>
          if list_ex (\<lambda>(q, n). is_inside d q) fs then Inl (Error ''ENOTEMPTY: directory not empty'')
          else Inr (filter (\<lambda>(q, n). q \<noteq> d) fs))"

text \<open>A directory with nothing in it.\<close>

definition empty_dir :: "fs \<Rightarrow> path \<Rightarrow> bool" where
  "empty_dir fs d = (map_of fs d = Some Dir \<and> \<not> list_ex (\<lambda>(q, n). is_inside d q) fs)"

definition fs_ensureDir :: "fs \<Rightarrow> path \<Rightarrow> error + fs" where
  "fs_ensureDir fs d =
     (case map_of fs d of
        None \<Rightarrow> Inr ((d, Dir) # fs)
      | Some (File c) \<Rightarrow> Inl (Error ''EEXIST: file already exists'')
      | Some Dir \<Rightarrow> Inr fs)"

definition fs_readdir :: "fs \<Rightarrow> path \<Rightarrow> string list" where
  "fs_readdir fs d = remdups (map (basename \<circ> fst) (filter (\<lambda>(q, n). q \<noteq> [] \<and> dirname q = d) fs))"

text \<open>A path as the string the code passes around.\<close>

fun path_string :: "path \<Rightarrow> string" where
  "path_string [] = []"
| "path_string [c] = c"
| "path_string (c # cs) = c @ ''/'' @ path_string cs"

section \<open>Batch compression\<close>

text \<open>The filter of \<^verbatim>\<open>processDirectory\<close> on the names of the directory.\<close>

definition select_mov :: "fs \<Rightarrow> path \<Rightarrow> string list" where
  "select_mov fs dir = filter (\<lambda>f. endsWith (toLowerCase f) ''.mov'') (fs_readdir fs dir)"

text \<open>
  \<^verbatim>\<open>path.basename(file, ".mov")\<close> on the name of the file: the name without the suffix,
  unless the suffix is the whole name.
\<close>

definition basename_ext :: "string \<Rightarrow> string \<Rightarrow> string" where
  "basename_ext name ext =
     (if endsWith name ext \<and> name \<noteq> ext then take (length name - length ext) name else name)"

text \<open>
  \<^verbatim>\<open>file.replace(/\.mov$/, ".mp4")\<close>, on the name of the file: the end of the path is the
  end of its last component.
\<close>

definition replace_mov :: "string \<Rightarrow> string" where
  "replace_mov name =
     (if endsWith name ''.mov'' then take (length name - 4) name @ ''.mp4'' else name)"

datatype status = SkippedFile | CompressedFile | FailedFile

text \<open>
  The replacement of the original in clobber mode, inside the \<^verbatim>\<open>try\<close>: remove the
  original, move the staged output to the final path, remove the staging directory if it
  is empty. The error of \<^verbatim>\<open>fs.move\<close> ends the turn as failed; the error of
  \<^verbatim>\<open>fs.rmdir\<close> is ignored.
\<close>

definition replace_original :: "fs \<Rightarrow> path \<Rightarrow> path \<Rightarrow> status \<times> fs" where
  "replace_original fs file outputPath =
     (let fs1 = fs_remove fs file;
          finalPath = dirname file @ [replace_mov (basename file)]
      in case fs_move fs1 outputPath finalPath of
           Inl e \<Rightarrow> (FailedFile, fs1)
         | Inr fs2 \<Rightarrow>
             (CompressedFile,
              case fs_rmdir fs2 (dirname outputPath) of Inl e \<Rightarrow> fs2 | Inr fs3 \<Rightarrow> fs3))"

text \<open>
  One turn of the loop of \<^verbatim>\<open>processDirectory\<close>, for the name \<open>f\<close> in \<open>dir\<close>. The order of
  the turns (smallest file first) and the limit decide which names get a turn and when.
  In clobber mode every turn ensures the staging directory; the directory
  \<^verbatim>\<open>compressed\<close> of the other mode is ensured once, before the loop.
  An error of \<^verbatim>\<open>fs.ensureDir\<close> is outside the \<^verbatim>\<open>try\<close> and ends the whole batch;
  every error inside it is logged and the loop goes on. A transcoder that succeeds has
  written its output at the output path; one that fails is taken to leave nothing there.
\<close>

definition process_file ::
  "path \<Rightarrow> bool \<Rightarrow> bool \<Rightarrow> (path \<Rightarrow> nat \<Rightarrow> attempt) \<Rightarrow> fs \<Rightarrow> string \<Rightarrow> error + status \<times> fs" where
  "process_file dir force clobber answers fs f =
     (let file = dir @ [f];
          outDir = dir @ [if clobber then ''temp_output'' else ''compressed''];
          outputPath = outDir @ [basename_ext (basename file) ''.mov'' @ ''.mp4'']
      in case (if clobber then fs_ensureDir fs outDir else Inr fs) of
           Inl e \<Rightarrow> Inl e
         | Inr fs1 \<Rightarrow>
             if \<not> clobber \<and> \<not> force \<and> fs_exists fs1 outputPath then Inr (SkippedFile, fs1)
             else
               (case c_result (compressVideo (path_string file) (answers file) 0) of
                  Inl e \<Rightarrow> Inr (FailedFile, fs1)
                | Inr output \<Rightarrow>
                    (let fs2 = AList.update outputPath (File output) fs1
                     in if clobber then Inr (replace_original fs2 file outputPath)
                        else Inr (CompressedFile, fs2))))"


section \<open>A sample run\<close>

text \<open>
  Concrete replies and a concrete state, on which the theorems below are exercised: a clip
  of 10 seconds in the directory \<^verbatim>\<open>videos\<close>, with no comment and empty stores, and
  services that all answer.
\<close>

definition sample_analysis :: json where
  "sample_analysis =
     JObj [(''description'', JStr ''A dog runs''), (''needsTranscript'', JBool False),
           (''additionalKeyframes'', JNum (Fin 1))]"

definition sample_importance :: json where
  "sample_importance =
     JObj [(''importance'', JNum (Fin 2)), (''reason'', JStr ''family pet''),
           (''fullDescription'', JStr ''The family dog runs'')]"

text \<open>A conversion to strings that is right on the sample values.\<close>

fun sample_show :: "json \<Rightarrow> string" where
  "sample_show (JStr s) = s"
| "sample_show v = ''2''"

definition sample_services :: services where
  "sample_services =
     \<lparr>probe = Inr (Fin 10),
      initial_reply = Inr (Some sample_analysis),
      transcription = Inr ''good dog'',
      keyframes = None,
      frame_description = (\<lambda>i. Inr ''a dog''),
      importance_reply = Inr (Some sample_importance),
      name_reply = Inr ''Dog Runs'',
      guid = ''ab12'',
      now = ''2025-03-25T22:27:15.078Z'',
      rename_error = None,
      finder_get_ok = True,
      finder_set_ok = True,
      show_json = sample_show\<rparr>"

definition sample_video :: path where
  "sample_video = [''videos'', ''clip.mov'']"

definition sample_world :: world where
  "sample_world =
     \<lparr>files = (\<lambda>p. p = sample_video),
      comments = (\<lambda>p. []),
      txt_store = (\<lambda>d. []),
      json_store = (\<lambda>d. Unreadable),
      console = []\<rparr>"

text \<open>Two more replies to the importance prompt: a rating of 4.5 and a rating of 10.\<close>

definition half_importance :: json where
  "half_importance =
     JObj [(''importance'', JNum (Fin (9 / 2))), (''reason'', JStr ''scenery''),
           (''fullDescription'', JStr ''A beach'')]"

definition high_importance :: json where
  "high_importance =
     JObj [(''importance'', JNum (Fin 10)), (''reason'', JStr ''scenery''),
           (''fullDescription'', JStr ''A beach'')]"

text \<open>
  Variants of the sample run: the transcription service returns the empty string; the
  clip lasts 3 seconds, so that the reply's needsTranscript = false stands; the rename is
  refused; the script that sets the comment fails.
\<close>

definition empty_transcript_services :: services where
  "empty_transcript_services = sample_services\<lparr>transcription := Inr []\<rparr>"

definition short_clip_services :: services where
  "short_clip_services = sample_services\<lparr>probe := Inr (Fin 3)\<rparr>"

definition rename_refused_services :: services where
  "rename_refused_services =
     sample_services\<lparr>rename_error := Some (Error ''EACCES: permission denied, rename'')\<rparr>"

definition comment_refused_services :: services where
  "comment_refused_services = sample_services\<lparr>finder_set_ok := False\<rparr>"

text \<open>The sample state with a comment of one space on every file.\<close>

definition blank_comment_world :: world where
  "blank_comment_world = sample_world\<lparr>comments := (\<lambda>p. [0x20])\<rparr>"

text \<open>The sample state with a comment on every file.\<close>

definition annotated_world :: world where
  "annotated_world = sample_world\<lparr>comments := (\<lambda>p. map of_char ''A dog runs'')\<rparr>"

text \<open>What the stages before the commit step gather in the sample run.\<close>

definition sample_evidence :: evidence where
  "sample_evidence =
     \<lparr>ev_duration = Some (JNum (Fin 10)),
      ev_transcript = ''good dog'',
      ev_descriptions = [''a dog''],
      ev_importance = sample_importance,
      ev_newFileName = ''2_dog-runs-ab12.mov''\<rparr>"

section \<open>Sample transcoder runs\<close>

definition good_attempt :: attempt where
  "good_attempt =
     \<lparr>drive_accessible = True, access_error = None, ffprobe_error = None,
      transcode = Inr ''small''\<rparr>"

definition canceled_attempt :: attempt where
  "canceled_attempt = good_attempt\<lparr>transcode := Inl ''Error: ECANCELED: operation canceled, read''\<rparr>"

definition codec_attempt :: attempt where
  "codec_attempt = good_attempt\<lparr>transcode := Inl ''ffmpeg exited with code 1: Unknown encoder libx264''\<rparr>"

definition bad_header_attempt :: attempt where
  "bad_header_attempt = good_attempt\<lparr>ffprobe_error := Some ''Invalid data found when processing input''\<rparr>"

text \<open>Canceled on the first \<open>k\<close> calls, good from then on.\<close>

definition canceled_until :: "nat \<Rightarrow> nat \<Rightarrow> attempt" where
  "canceled_until k n = (if n < k then canceled_attempt else good_attempt)"

definition bad_header_until :: "nat \<Rightarrow> nat \<Rightarrow> attempt" where
  "bad_header_until k n = (if n < k then bad_header_attempt else good_attempt)"

text \<open>A directory with two clips and an older output.\<close>

definition sample_fs :: fs where
  "sample_fs =
     [([''videos''], Dir),
      ([''videos'', ''a.mov''], File ''large a''),
      ([''videos'', ''B.MOV''], File ''large b''),
      ([''videos'', ''old.mp4''], File ''older'')]"

text \<open>The transcoder answering alike for every file and call.\<close>

definition good_answers :: "path \<Rightarrow> nat \<Rightarrow> attempt" where
  "good_answers p n = good_attempt"



definition sample_fs_after_B :: fs where
  "sample_fs_after_B =
     [([''videos''], Dir),
      ([''videos'', ''a.mov''], File ''large a''),
      ([''videos'', ''old.mp4''], File ''older''),
      ([''videos'', ''B.MOV''], File ''small'')]"





section \<open>The slug is a fixed point of its own sanitization\<close>

lemma slug_char_not_space: "slug_char c \<Longrightarrow> \<not> is_space c"
proof -
  assume s: "slug_char c"
  have i: "(of_char c :: int) = int (of_char c)"
    by (simp add: of_nat_of_char)
  from s have "(97 \<le> (of_char c :: nat) \<and> (of_char c :: nat) \<le> 122) \<or>
      (48 \<le> (of_char c :: nat) \<and> (of_char c :: nat) \<le> 57) \<or> (of_char c :: nat) = 45"
    by (auto simp: slug_char_def Let_def)
  then show ?thesis
    unfolding is_space_def white_space_def i by auto
qed

lemma slug_char_lower: "slug_char c \<Longrightarrow> lower_char c = c"
  by (auto simp: slug_char_def lower_char_def is_upper_def Let_def)

lemma dropWhile_hd_id: "s = [] \<or> \<not> P (hd s) \<Longrightarrow> dropWhile P s = s"
  by (cases s) auto

lemma trim_id:
  assumes "s = [] \<or> (\<not> is_space (hd s) \<and> \<not> is_space (last s))"
  shows "trim s = s"
proof -
  have a: "dropWhile is_space s = s"
    using assms by (intro dropWhile_hd_id) auto
  have b: "dropWhile is_space (rev s) = rev s"
    using assms by (intro dropWhile_hd_id) (auto simp: hd_rev)
  show ?thesis by (simp add: trim_def a b)
qed

lemma collapse_id: "no_double_hyphen s \<Longrightarrow> collapse_hyphens s = s"
  by (induction s rule: collapse_hyphens.induct) auto

lemma collapse_hd: "collapse_hyphens (c # s) \<noteq> [] \<and> hd (collapse_hyphens (c # s)) = c"
  by (induction s arbitrary: c) auto

lemma collapse_no_double: "no_double_hyphen (collapse_hyphens s)"
proof (induction s rule: collapse_hyphens.induct)
  case (1 c d s)
  obtain r where r: "collapse_hyphens (d # s) = d # r"
    using collapse_hd [of d s] by (cases "collapse_hyphens (d # s)") auto
  with 1 show ?case by auto
qed simp_all

lemma collapse_chars: "list_all P s \<Longrightarrow> list_all P (collapse_hyphens s)"
  by (induction s rule: collapse_hyphens.induct) auto

lemma replace_unsafe_chars: "list_all slug_char (replace_unsafe s)"
  by (induction s) (auto simp: replace_unsafe_def slug_char_def)

lemma replace_unsafe_id: "list_all slug_char s \<Longrightarrow> replace_unsafe s = s"
  by (induction s) (auto simp: replace_unsafe_def)

lemma toLowerCase_id: "list_all slug_char s \<Longrightarrow> toLowerCase s = s"
  by (induction s) (auto simp: toLowerCase_def slug_char_lower)

lemma no_double_tl: "no_double_hyphen (c # s) \<Longrightarrow> no_double_hyphen s"
  by (cases s) auto

lemma no_double_butlast: "no_double_hyphen s \<Longrightarrow> no_double_hyphen (butlast s)"
  by (induction s rule: no_double_hyphen.induct) (auto split: if_splits)

lemma no_double_last:
  "no_double_hyphen s \<Longrightarrow> s \<noteq> [] \<Longrightarrow> last s = CHR ''-'' \<Longrightarrow> butlast s \<noteq> [] \<Longrightarrow>
   last (butlast s) \<noteq> CHR ''-''"
  by (induction s rule: no_double_hyphen.induct) (auto split: if_splits)

lemma strip_leading_props:
  assumes "list_all slug_char s" "no_double_hyphen s"
  shows "list_all slug_char (strip_leading_hyphen s)"
    and "no_double_hyphen (strip_leading_hyphen s)"
    and "strip_leading_hyphen s = [] \<or> hd (strip_leading_hyphen s) \<noteq> CHR ''-''"
  using assms by (cases s; cases "tl s"; auto simp: strip_leading_hyphen_def)+

lemma hd_butlast: "butlast s \<noteq> [] \<Longrightarrow> hd (butlast s) = hd s"
  by (cases s) auto

lemma strip_trailing_props:
  assumes "list_all slug_char s" "no_double_hyphen s" "s = [] \<or> hd s \<noteq> CHR ''-''"
  shows "clean_slug (strip_trailing_hyphen s)"
proof (cases "s \<noteq> [] \<and> last s = CHR ''-''")
  case True
  then have e: "strip_trailing_hyphen s = butlast s"
    by (simp add: strip_trailing_hyphen_def)
  have "list_all slug_char (butlast s)"
    using assms(1) by (auto simp: list_all_iff dest: in_set_butlastD)
  moreover have "no_double_hyphen (butlast s)"
    using assms(2) by (rule no_double_butlast)
  moreover have "butlast s = [] \<or> (hd (butlast s) \<noteq> CHR ''-'' \<and> last (butlast s) \<noteq> CHR ''-'')"
    using assms True no_double_last [of s] by (auto simp: hd_butlast)
  ultimately show ?thesis by (simp add: e clean_slug_def)
next
  case False
  then show ?thesis using assms by (auto simp: strip_trailing_hyphen_def clean_slug_def)
qed

lemma sanitize_clean: "clean_slug (sanitize s)"
  unfolding sanitize_def strip_edge_hyphens_def
  by (intro strip_trailing_props strip_leading_props collapse_chars collapse_no_double
      replace_unsafe_chars)

lemma clean_slug_fixed: "clean_slug s \<Longrightarrow> sanitize s = s"
proof -
  assume c: "clean_slug s"
  then have ch: "list_all slug_char s" and nd: "no_double_hyphen s"
    and ed: "s = [] \<or> (hd s \<noteq> CHR ''-'' \<and> last s \<noteq> CHR ''-'')"
    by (auto simp: clean_slug_def)
  have sp: "s = [] \<or> (\<not> is_space (hd s) \<and> \<not> is_space (last s))"
    using ch by (cases s) (auto simp: list_all_iff slug_char_not_space)
  have 1: "trim s = s" using sp by (rule trim_id)
  have 2: "toLowerCase s = s" using ch by (rule toLowerCase_id)
  have 3: "replace_unsafe s = s" using ch by (rule replace_unsafe_id)
  have 4: "collapse_hyphens s = s" using nd by (rule collapse_id)
  have 5: "strip_edge_hyphens s = s"
    using ed by (cases s) (auto simp: strip_edge_hyphens_def strip_leading_hyphen_def
        strip_trailing_hyphen_def)
  show ?thesis by (simp add: sanitize_def 1 2 3 4 5)
qed

text \<open>
  C8: the sanitization of generateShortName (trim, lowercase, replace every character outside
  a-z, 0-9 and the hyphen by a hyphen, collapse runs of hyphens, strip one hyphen at each
  end) is idempotent: applied twice it gives what it gives applied once, for every string.
\<close>

theorem sanitize_idempotent: "sanitize (sanitize s) = sanitize s"
  by (rule clean_slug_fixed) (rule sanitize_clean)

theorem sanitize_idempotent_witness:
  "sanitize (sanitize '' My  Dog--Runs! '') = sanitize '' My  Dog--Runs! '' \<and>
   sanitize '' My  Dog--Runs! '' = ''my-dog-runs''"
proof -
  have "sanitize '' My  Dog--Runs! '' = ''my-dog-runs''"
    by code_simp
  with sanitize_idempotent [of "'' My  Dog--Runs! ''"] show ?thesis
    by (rule conjI)
qed

section \<open>The analyzer's validation\<close>

lemma invalid_analysis_obj:
  "\<not> invalid_analysis a \<Longrightarrow> \<exists>ps. a = JObj ps \<and> is_boolean (map_of ps ''needsTranscript'')"
  by (cases a) (auto simp: invalid_analysis_def)

lemma set_prop_obj:
  "set_prop v k x = Inr (JObj ps) \<Longrightarrow> \<exists>qs. v = JObj qs \<and> ps = AList.update k x qs"
  by (cases v) auto

lemma checked_analysis_forces:
  assumes "js_gt duration (Fin 5)" "checked_analysis duration parsed = Inr a"
  shows "get_prop a ''needsTranscript'' = Inr (Some (JBool True))"
proof -
  from assms obtain b where b: "set_prop parsed ''needsTranscript'' (JBool True) = Inr b"
    and v: "\<not> invalid_analysis b" and a: "a = with_duration b duration"
    by (auto simp: checked_analysis_def split: sum.splits if_splits)
  from v obtain ps where ps: "b = JObj ps" using invalid_analysis_obj by blast
  from b ps obtain qs where "ps = AList.update ''needsTranscript'' (JBool True) qs"
    using set_prop_obj by blast
  then show ?thesis by (simp add: a ps update_conv')
qed

text \<open>
  C1: for an asset whose probed duration is above 5 seconds, every result that
  analyzeInitialFrame returns has needsTranscript = true, whatever the reply of the model
  said.
\<close>

theorem analyzeInitialFrame_forces_transcript:
  assumes "probe sv = Inr duration" and "js_gt duration (Fin 5)"
    and "analyzeInitialFrame sv = Inr a"
  shows "get_prop a ''needsTranscript'' = Inr (Some (JBool True))"
proof -
  from assms(1,3) obtain parsed where "checked_analysis duration parsed = Inr a"
    by (auto simp: analyzeInitialFrame_def split: sum.splits option.splits)
  with assms(2) show ?thesis by (rule checked_analysis_forces)
qed

text \<open>The sample reply says false, the clip lasts 10 seconds, the result says true.\<close>

theorem analyzeInitialFrame_forces_transcript_witness:
  "probe sample_services = Inr (Fin 10) \<and> js_gt (Fin 10) (Fin 5) \<and>
   initial_reply sample_services = Inr (Some sample_analysis) \<and>
   get_prop sample_analysis ''needsTranscript'' = Inr (Some (JBool False)) \<and>
   (\<exists>a. analyzeInitialFrame sample_services = Inr a \<and>
        get_prop a ''needsTranscript'' = Inr (Some (JBool True)))"
proof -
  have p: "probe sample_services = Inr (Fin 10)" by (simp add: sample_services_def)
  have g: "js_gt (Fin 10) (Fin 5)" by (simp add: js_gt_def)
  have r: "initial_reply sample_services = Inr (Some sample_analysis)"
    by (simp add: sample_services_def)
  have n: "get_prop sample_analysis ''needsTranscript'' = Inr (Some (JBool False))"
    by (simp add: sample_analysis_def)
  have a: "analyzeInitialFrame sample_services =
           Inr (JObj [(''description'', JStr ''A dog runs''), (''needsTranscript'', JBool True),
                      (''additionalKeyframes'', JNum (Fin 1)), (''duration'', JNum (Fin 10))])"
    by (simp add: analyzeInitialFrame_def p r checked_analysis_def g sample_analysis_def
        invalid_analysis_def js_gt_def)
  from analyzeInitialFrame_forces_transcript [OF p g a] p g r n a show ?thesis by blast
qed


lemma valid_importance_range:
  assumes "\<not> invalid_importance a"
  shows "\<exists>r. read_prop a ''importance'' = Some (JNum (Fin r)) \<and> 1 \<le> r \<and> r \<le> 9"
proof -
  from assms obtain ps where ps: "a = JObj ps"
    by (cases a) (auto simp: invalid_importance_def)
  from assms ps obtain n where n: "map_of ps ''importance'' = Some (JNum n)"
    and lo: "\<not> js_lt n (Fin 1)" and hi: "\<not> js_gt n (Fin 9)" and t: "n \<noteq> NaN"
    by (cases "map_of ps ''importance''" rule: is_number.cases)
       (auto simp: invalid_importance_def)
  from lo hi t obtain r where "n = Fin r" "1 \<le> r" "r \<le> 9"
    by (cases n) (auto simp: js_gt_def)
  with n ps show ?thesis by (simp add: read_prop_def)
qed

lemma out_of_range_invalid:
  assumes "\<forall>r. read_prop a ''importance'' = Some (JNum (Fin r)) \<longrightarrow> r < 1 \<or> 9 < r"
  shows "invalid_importance a"
  using assms valid_importance_range [of a] by force

text \<open>
  C2, as the code has it: what determineImportance returns is the parsed reply itself, and
  its importance is a number from 1 to 9, whole or not; a parsed reply whose importance is
  absent, not a number or outside that range makes determineImportance raise, and no
  value is clamped or put in its place.
\<close>

theorem determineImportance_range:
  "(determineImportance sv = Inr a \<longrightarrow>
      importance_reply sv = Inr (Some a) \<and>
      (\<exists>r. read_prop a ''importance'' = Some (JNum (Fin r)) \<and> 1 \<le> r \<and> r \<le> 9)) \<and>
   (importance_reply sv = Inr (Some parsed) \<longrightarrow>
      (\<forall>r. read_prop parsed ''importance'' = Some (JNum (Fin r)) \<longrightarrow> r < 1 \<or> 9 < r) \<longrightarrow>
      determineImportance sv = Inl (Error ''Failed to get valid analysis from OpenAI''))"
proof (intro conjI impI)
  assume d: "determineImportance sv = Inr a"
  then show "importance_reply sv = Inr (Some a)"
    by (auto simp: determineImportance_def split: sum.splits option.splits if_splits)
  from d have "\<not> invalid_importance a"
    by (auto simp: determineImportance_def split: sum.splits option.splits if_splits)
  then show "\<exists>r. read_prop a ''importance'' = Some (JNum (Fin r)) \<and> 1 \<le> r \<and> r \<le> 9"
    by (rule valid_importance_range)
next
  assume "importance_reply sv = Inr (Some parsed)"
    and "\<forall>r. read_prop parsed ''importance'' = Some (JNum (Fin r)) \<longrightarrow> r < 1 \<or> 9 < r"
  then show "determineImportance sv = Inl (Error ''Failed to get valid analysis from OpenAI'')"
    by (simp add: determineImportance_def out_of_range_invalid)
qed

theorem determineImportance_range_witness:
  "determineImportance sample_services = Inr sample_importance \<and>
   read_prop sample_importance ''importance'' = Some (JNum (Fin 2)) \<and>
   read_prop high_importance ''importance'' = Some (JNum (Fin 10)) \<and>
   determineImportance (sample_services\<lparr>importance_reply := Inr (Some high_importance)\<rparr>)
     = Inl (Error ''Failed to get valid analysis from OpenAI'')"
proof -
  have a: "determineImportance sample_services = Inr sample_importance"
    by (simp add: determineImportance_def sample_services_def sample_importance_def
        invalid_importance_def js_gt_def)
  have b: "read_prop sample_importance ''importance'' = Some (JNum (Fin 2))"
    by (simp add: sample_importance_def read_prop_def)
  have c: "read_prop high_importance ''importance'' = Some (JNum (Fin 10))"
    by (simp add: high_importance_def read_prop_def)
  have d: "importance_reply (sample_services\<lparr>importance_reply := Inr (Some high_importance)\<rparr>)
           = Inr (Some high_importance)"
    by simp
  have e: "\<forall>r. read_prop high_importance ''importance'' = Some (JNum (Fin r)) \<longrightarrow> r < 1 \<or> 9 < r"
    by (simp add: c)
  from determineImportance_range [of sample_services sample_importance]
    determineImportance_range
      [of "sample_services\<lparr>importance_reply := Inr (Some high_importance)\<rparr>" _ high_importance]
    a b c d e
  show ?thesis by blast
qed

text \<open>
  C2 as stated fails: a reply with the importance 4.5 passes the validation and is
  returned, and 4.5 is not an integer.
\<close>

theorem determineImportance_fraction_counterexample:
  "determineImportance (sample_services\<lparr>importance_reply := Inr (Some half_importance)\<rparr>)
     = Inr half_importance \<and>
   read_prop half_importance ''importance'' = Some (JNum (Fin (9 / 2))) \<and>
   \<not> is_integer (Fin (9 / 2))"
proof -
  have "\<lfloor>9 / 2 :: rat\<rfloor> = 4" by (simp add: floor_eq_iff)
  then show ?thesis
    by (simp add: determineImportance_def half_importance_def invalid_importance_def
        read_prop_def js_gt_def)
qed

section \<open>The commit step of processVideo\<close>

lemma say_fields [simp]:
  "txt_store (say e w) = txt_store w" "json_store (say e w) = json_store w"
  "files (say e w) = files w" "comments (say e w) = comments w"
  "console (say e w) = console w @ [e]"
  by (simp_all add: say_def)

lemma writeSummaryFile_ok:
  assumes "json_store w d \<noteq> NotArray"
  shows "\<exists>w1. writeSummaryFile w s p d = (Inr (), w1) \<and>
     txt_store w1 d = txt_store w d @ [\<lparr>st_summary = s, st_path = p\<rparr>] \<and>
     json_store w1 d = Records (records_of (json_store w d) @ [\<lparr>st_summary = s, st_path = p\<rparr>]) \<and>
     files w1 = files w \<and> comments w1 = comments w \<and> console w1 = console w"
  using assms by (cases "json_store w d") (simp_all add: writeSummaryFile_def Let_def)

lemma writeSummaryFile_Inr:
  assumes "writeSummaryFile w s p d = (Inr u, w1)"
  shows "txt_store w1 d = txt_store w d @ [\<lparr>st_summary = s, st_path = p\<rparr>] \<and>
     json_store w1 d = Records (records_of (json_store w d) @ [\<lparr>st_summary = s, st_path = p\<rparr>]) \<and>
     files w1 = files w \<and> comments w1 = comments w \<and> console w1 = console w"
  using assms by (cases "json_store w d") (auto simp: writeSummaryFile_def Let_def)

lemma rename_Inr:
  assumes "rename sv w old new = Inr w2"
  shows "txt_store w2 = txt_store w \<and> json_store w2 = json_store w \<and> console w2 = console w \<and>
     files w2 new \<and> comments w2 new = comments w old \<and> files w old \<and> rename_error sv = None \<and>
     (new \<noteq> old \<longrightarrow> \<not> files w2 old)"
  using assms by (auto simp: rename_def split: if_splits option.splits)

lemma rename_fails:
  "\<not> files w old \<or> rename_error sv \<noteq> None \<Longrightarrow> \<exists>e. rename sv w old new = Inl e"
  by (auto simp: rename_def)

lemma rename_ok:
  "files w old \<Longrightarrow> rename_error sv = None \<Longrightarrow> \<exists>w2. rename sv w old new = Inr w2"
  by (auto simp: rename_def)

lemma setMacMetadataXattr_stores [simp]:
  "txt_store (setMacMetadataXattr sv w p t) = txt_store w"
  "json_store (setMacMetadataXattr sv w p t) = json_store w"
  "files (setMacMetadataXattr sv w p t) = files w"
  by (simp_all add: setMacMetadataXattr_def Let_def)

lemma setMacMetadataXattr_fails:
  "\<not> finder_set_ok sv \<Longrightarrow> setMacMetadataXattr sv w p t = say FailedToSetComment w"
  by (simp add: setMacMetadataXattr_def)

lemma commit_rename_fails:
  assumes "json_store w d \<noteq> NotArray" and "\<not> files w p \<or> rename_error sv \<noteq> None"
  shows "\<exists>e w'. commit sv w p d ev = (Inl e, w') \<and>
     txt_store w' d = txt_store w d @
       [\<lparr>st_summary = make_summary sv p ev, st_path = dirname p @ [ev_newFileName ev]\<rparr>] \<and>
     json_store w' d = Records (records_of (json_store w d) @
       [\<lparr>st_summary = make_summary sv p ev, st_path = dirname p @ [ev_newFileName ev]\<rparr>]) \<and>
     files w' = files w \<and> comments w' = comments w"
proof -
  from writeSummaryFile_ok [OF assms(1), of "make_summary sv p ev" "dirname p @ [ev_newFileName ev]"]
  obtain w1 where w1: "writeSummaryFile w (make_summary sv p ev) (dirname p @ [ev_newFileName ev]) d
      = (Inr (), w1)"
    and f: "txt_store w1 d = txt_store w d @
       [\<lparr>st_summary = make_summary sv p ev, st_path = dirname p @ [ev_newFileName ev]\<rparr>]"
      "json_store w1 d = Records (records_of (json_store w d) @
       [\<lparr>st_summary = make_summary sv p ev, st_path = dirname p @ [ev_newFileName ev]\<rparr>])"
      "files w1 = files w" "comments w1 = comments w"
    by blast
  from assms(2) f(3) obtain e where
    "rename sv (say (RenamingTo (ev_newFileName ev)) w1) p (dirname p @ [ev_newFileName ev]) = Inl e"
    using rename_fails [of "say (RenamingTo (ev_newFileName ev)) w1" p sv] by auto
  with w1 f show ?thesis by (simp add: commit_def Let_def)
qed

lemma commit_Inr:
  assumes "commit sv w p d ev = (Inr r, w')"
  shows "r = Processed (ev_newFileName ev) \<and>
     txt_store w' d = txt_store w d @
       [\<lparr>st_summary = make_summary sv p ev, st_path = dirname p @ [ev_newFileName ev]\<rparr>] \<and>
     json_store w' d = Records (records_of (json_store w d) @
       [\<lparr>st_summary = make_summary sv p ev, st_path = dirname p @ [ev_newFileName ev]\<rparr>])"
proof -
  obtain x w1 where ws: "writeSummaryFile w (make_summary sv p ev) (dirname p @ [ev_newFileName ev]) d
      = (x, w1)" by (cases "writeSummaryFile w (make_summary sv p ev) (dirname p @ [ev_newFileName ev]) d")
  with assms obtain u where x: "x = Inr u"
    by (cases x) (auto simp: commit_def Let_def)
  from ws x have f: "txt_store w1 d = txt_store w d @
       [\<lparr>st_summary = make_summary sv p ev, st_path = dirname p @ [ev_newFileName ev]\<rparr>]"
      "json_store w1 d = Records (records_of (json_store w d) @
       [\<lparr>st_summary = make_summary sv p ev, st_path = dirname p @ [ev_newFileName ev]\<rparr>])"
    using writeSummaryFile_Inr by blast+
  from assms ws x obtain w2 where
    r: "rename sv (say (RenamingTo (ev_newFileName ev)) w1) p (dirname p @ [ev_newFileName ev]) = Inr w2"
    and w': "w' = say (SuccessfullyProcessed (ev_newFileName ev))
       (setMacMetadataXattr sv w2 (dirname p @ [ev_newFileName ev]) (comment_text sv (ev_importance ev)))"
    and rr: "r = Processed (ev_newFileName ev)"
    by (auto simp: commit_def Let_def split: sum.splits)
  from rename_Inr [OF r] f w' rr show ?thesis by simp
qed

lemma commit_comment_fails:
  assumes "json_store w d \<noteq> NotArray" and "files w p" and "rename_error sv = None"
    and "\<not> finder_set_ok sv"
  shows "\<exists>w'. commit sv w p d ev = (Inr (Processed (ev_newFileName ev)), w') \<and>
     files w' (dirname p @ [ev_newFileName ev]) \<and>
     comments w' (dirname p @ [ev_newFileName ev]) = comments w p \<and>
     (dirname p @ [ev_newFileName ev] \<noteq> p \<longrightarrow> \<not> files w' p) \<and>
     FailedToSetComment \<in> set (console w')"
proof -
  from writeSummaryFile_ok [OF assms(1), of "make_summary sv p ev" "dirname p @ [ev_newFileName ev]"]
  obtain w1 where w1: "writeSummaryFile w (make_summary sv p ev) (dirname p @ [ev_newFileName ev]) d
      = (Inr (), w1)"
    and f: "files w1 = files w" "comments w1 = comments w"
    by blast
  from assms(2,3) f obtain w2 where
    r: "rename sv (say (RenamingTo (ev_newFileName ev)) w1) p (dirname p @ [ev_newFileName ev]) = Inr w2"
    using rename_ok [of "say (RenamingTo (ev_newFileName ev)) w1" p sv] by auto
  from rename_Inr [OF r] f w1 r assms(4) show ?thesis
    by (simp add: commit_def Let_def setMacMetadataXattr_fails)
qed

lemma processVideo_runs:
  assumes "force \<or> \<not> hasMetadata sv w p" and "gather sv p = Inr ev"
  shows "processVideo sv w p force d =
     (case commit sv w p d ev of
        (Inl e, w1) \<Rightarrow> (Inl e, say (ErrorProcessing e) w1)
      | (Inr r, w1) \<Rightarrow> (Inr r, w1))"
  using assms by (auto simp: processVideo_def)

lemma processVideo_Processed:
  assumes "processVideo sv w p force d = (Inr (Processed n), w')"
  shows "\<exists>ev. gather sv p = Inr ev \<and> commit sv w p d ev = (Inr (Processed n), w')"
  using assms by (auto simp: processVideo_def split: if_splits sum.splits prod.splits)

lemma gather_transcript:
  assumes "gather sv p = Inr ev"
  shows "\<exists>a. analyzeInitialFrame sv = Inr a \<and>
     get_transcript sv (read_prop a ''needsTranscript'') = Inr (ev_transcript ev)"
  using assms by (auto simp: gather_def split: sum.splits)

lemma processVideo_not_skipped:
  "\<not> hasMetadata sv w p \<Longrightarrow> fst (processVideo sv w p False d) \<noteq> Inr Skipped"
  by (auto simp: processVideo_def commit_def Let_def split: sum.splits prod.splits)

lemma hasMetadata_blank: "trim_units (comments w p) = [] \<Longrightarrow> \<not> hasMetadata sv w p"
  by (simp add: hasMetadata_def)

text \<open>A comment made of white space only, of whatever kind, counts as no comment.\<close>

lemma white_space_only_comment:
  assumes "list_all white_space (comments w p)"
  shows "\<not> hasMetadata sv w p"
proof -
  have "dropWhile white_space s = []" if "list_all white_space s" for s
    using that by (induction s) auto
  with assms have d: "dropWhile white_space (comments w p) = []"
    by blast
  have "trim_units (comments w p) = []"
    unfolding trim_units_def d by simp
  then show ?thesis by (rule hasMetadata_blank)
qed

lemma processVideo_appends:
  assumes "processVideo sv w p force d = (Inr (Processed n), w')"
  shows "\<exists>st. txt_store w' d = txt_store w d @ [st] \<and>
     json_store w' d = Records (records_of (json_store w d) @ [st])"
proof -
  from processVideo_Processed [OF assms] obtain ev
    where "commit sv w p d ev = (Inr (Processed n), w')" by blast
  from commit_Inr [OF this] show ?thesis by blast
qed

text \<open>
  C3, as the code has it: the commit step writes the record to both stores first and
  renames afterwards, and nothing takes the record back. When the rename fails (no file
  at the old path, or the operating system refuses), processVideo raises the error, the
  file keeps its path and its comment, and both stores hold the new record.
\<close>

theorem processVideo_rename_fails:
  assumes "force \<or> \<not> hasMetadata sv w videoPath"
    and "gather sv videoPath = Inr ev"
    and "json_store w targetDir \<noteq> NotArray"
    and "\<not> files w videoPath \<or> rename_error sv \<noteq> None"
  shows "\<exists>e w'. processVideo sv w videoPath force targetDir = (Inl e, w') \<and>
     txt_store w' targetDir = txt_store w targetDir @
       [\<lparr>st_summary = make_summary sv videoPath ev,
         st_path = dirname videoPath @ [ev_newFileName ev]\<rparr>] \<and>
     json_store w' targetDir = Records (records_of (json_store w targetDir) @
       [\<lparr>st_summary = make_summary sv videoPath ev,
         st_path = dirname videoPath @ [ev_newFileName ev]\<rparr>]) \<and>
     files w' = files w \<and> comments w' = comments w"
proof -
  from commit_rename_fails [OF assms(3,4), of ev] obtain e w1
    where c: "commit sv w videoPath targetDir ev = (Inl e, w1)"
      and f: "txt_store w1 targetDir = txt_store w targetDir @
       [\<lparr>st_summary = make_summary sv videoPath ev,
         st_path = dirname videoPath @ [ev_newFileName ev]\<rparr>]"
       "json_store w1 targetDir = Records (records_of (json_store w targetDir) @
       [\<lparr>st_summary = make_summary sv videoPath ev,
         st_path = dirname videoPath @ [ev_newFileName ev]\<rparr>])"
       "files w1 = files w" "comments w1 = comments w"
    by blast
  have "processVideo sv w videoPath force targetDir = (Inl e, say (ErrorProcessing e) w1)"
    by (simp add: processVideo_runs [OF assms(1,2)] c)
  with f show ?thesis by simp
qed

theorem processVideo_rename_fails_witness:
  "(False \<or> \<not> hasMetadata rename_refused_services sample_world sample_video) \<and>
   gather rename_refused_services sample_video = Inr sample_evidence \<and>
   json_store sample_world [''videos''] \<noteq> NotArray \<and>
   rename_error rename_refused_services \<noteq> None \<and>
   (\<exists>e w'. processVideo rename_refused_services sample_world sample_video False [''videos'']
        = (Inl e, w') \<and>
      map st_path (txt_store w' [''videos'']) = [[''videos'', ''2_dog-runs-ab12.mov'']] \<and>
      map st_path (records_of (json_store w' [''videos''])) = [[''videos'', ''2_dog-runs-ab12.mov'']] \<and>
      files w' sample_video)"
proof -
  have h: "False \<or> \<not> hasMetadata rename_refused_services sample_world sample_video"
    by code_simp
  have g: "gather rename_refused_services sample_video = Inr sample_evidence"
    by code_simp
  have j: "json_store sample_world [''videos''] \<noteq> NotArray"
    by (simp add: sample_world_def)
  have r: "rename_error rename_refused_services \<noteq> None"
    by (simp add: rename_refused_services_def)
  have r': "\<not> files sample_world sample_video \<or> rename_error rename_refused_services \<noteq> None"
    using r by simp
  have s: "txt_store sample_world [''videos''] = []" "records_of (json_store sample_world [''videos'']) = []"
    "files sample_world sample_video" "dirname sample_video @ [ev_newFileName sample_evidence]
       = [''videos'', ''2_dog-runs-ab12.mov'']"
    by (simp_all add: sample_world_def sample_video_def sample_evidence_def dirname_def)
  from processVideo_rename_fails [OF h g j r'] s
  have "\<exists>e w'. processVideo rename_refused_services sample_world sample_video False [''videos'']
        = (Inl e, w') \<and>
      map st_path (txt_store w' [''videos'']) = [[''videos'', ''2_dog-runs-ab12.mov'']] \<and>
      map st_path (records_of (json_store w' [''videos''])) = [[''videos'', ''2_dog-runs-ab12.mov'']] \<and>
      files w' sample_video"
    by auto
  with h g j r show ?thesis by blast
qed

text \<open>
  C3 as stated fails: in the sample run with the rename refused, processVideo raises the
  error of the rename, and the stores, empty before, each hold the record.
\<close>

theorem rename_fails_stores_counterexample:
  "fst (processVideo rename_refused_services sample_world sample_video False [''videos''])
     = Inl (Error ''EACCES: permission denied, rename'') \<and>
   txt_store sample_world [''videos''] = [] \<and>
   json_store sample_world [''videos''] = Unreadable \<and>
   map st_path (txt_store
       (snd (processVideo rename_refused_services sample_world sample_video False [''videos'']))
       [''videos'']) = [[''videos'', ''2_dog-runs-ab12.mov'']] \<and>
   map st_path (records_of (json_store
       (snd (processVideo rename_refused_services sample_world sample_video False [''videos'']))
       [''videos''])) = [[''videos'', ''2_dog-runs-ab12.mov'']]"
  by code_simp

lemma make_summary_transcript:
  "s_transcript (make_summary sv p ev) = (if ev_transcript ev = [] then None else Some (ev_transcript ev))"
  by (simp add: make_summary_def)

text \<open>
  C4, as the code has it: the record of a successfully processed asset keeps
  \<^verbatim>\<open>transcript || null\<close>. Its transcript is null when transcription was skipped and
  also when it was performed and returned the empty string; the empty string is never
  stored; a transcript that is not empty is stored as returned.
\<close>

theorem processVideo_transcript_stored:
  assumes "processVideo sv w videoPath force targetDir = (Inr (Processed n), w')"
  shows "\<exists>a st. analyzeInitialFrame sv = Inr a \<and>
     txt_store w' targetDir = txt_store w targetDir @ [st] \<and>
     json_store w' targetDir = Records (records_of (json_store w targetDir) @ [st]) \<and>
     s_transcript (st_summary st) \<noteq> Some [] \<and>
     (\<not> truthy (read_prop a ''needsTranscript'') \<or> transcription sv = Inr [] \<longrightarrow>
        s_transcript (st_summary st) = None) \<and>
     (\<forall>t. truthy (read_prop a ''needsTranscript'') \<and> transcription sv = Inr t \<and> t \<noteq> [] \<longrightarrow>
        s_transcript (st_summary st) = Some t)"
proof -
  from processVideo_Processed [OF assms] obtain ev
    where g: "gather sv videoPath = Inr ev"
      and c: "commit sv w videoPath targetDir ev = (Inr (Processed n), w')" by blast
  from gather_transcript [OF g] obtain a where a: "analyzeInitialFrame sv = Inr a"
    and t: "get_transcript sv (read_prop a ''needsTranscript'') = Inr (ev_transcript ev)" by blast
  let ?st = "\<lparr>st_summary = make_summary sv videoPath ev,
               st_path = dirname videoPath @ [ev_newFileName ev]\<rparr>"
  from commit_Inr [OF c] have s: "txt_store w' targetDir = txt_store w targetDir @ [?st]"
    "json_store w' targetDir = Records (records_of (json_store w targetDir) @ [?st])"
    by simp_all
  have 1: "s_transcript (st_summary ?st) \<noteq> Some []"
    by (simp add: make_summary_transcript)
  have 2: "\<not> truthy (read_prop a ''needsTranscript'') \<or> transcription sv = Inr [] \<longrightarrow>
        s_transcript (st_summary ?st) = None"
    using t by (auto simp: get_transcript_def make_summary_transcript split: if_splits)
  have 3: "\<forall>t. truthy (read_prop a ''needsTranscript'') \<and> transcription sv = Inr t \<and> t \<noteq> [] \<longrightarrow>
        s_transcript (st_summary ?st) = Some t"
    using t by (auto simp: get_transcript_def make_summary_transcript split: if_splits)
  from a s 1 2 3 show ?thesis by blast
qed

theorem processVideo_transcript_stored_witness:
  "\<exists>a st. processVideo empty_transcript_services sample_world sample_video False [''videos'']
       = (Inr (Processed ''2_dog-runs-ab12.mov''),
          snd (processVideo empty_transcript_services sample_world sample_video False [''videos''])) \<and>
     analyzeInitialFrame empty_transcript_services = Inr a \<and>
     truthy (read_prop a ''needsTranscript'') \<and>
     transcription empty_transcript_services = Inr [] \<and>
     json_store (snd (processVideo empty_transcript_services sample_world sample_video False
        [''videos''])) [''videos''] = Records [st] \<and>
     s_transcript (st_summary st) = None"
proof -
  let ?r = "processVideo empty_transcript_services sample_world sample_video False [''videos'']"
  have f: "fst ?r = Inr (Processed ''2_dog-runs-ab12.mov'')" by code_simp
  then have p: "?r = (Inr (Processed ''2_dog-runs-ab12.mov''), snd ?r)"
    by (metis prod.collapse)
  have n: "map_sum id (\<lambda>a. truthy (read_prop a ''needsTranscript''))
       (analyzeInitialFrame empty_transcript_services) = Inr True"
    by code_simp
  have t: "transcription empty_transcript_services = Inr []" by code_simp
  have j: "records_of (json_store sample_world [''videos'']) = []"
    by (simp add: sample_world_def)
  from processVideo_transcript_stored [OF p] obtain a st
    where "analyzeInitialFrame empty_transcript_services = Inr a"
      and "json_store (snd ?r) [''videos''] =
             Records (records_of (json_store sample_world [''videos'']) @ [st])"
      and "\<not> truthy (read_prop a ''needsTranscript'') \<or>
             transcription empty_transcript_services = Inr [] \<longrightarrow>
           s_transcript (st_summary st) = None"
    by blast
  with p n t j show ?thesis by auto
qed

text \<open>
  C4 as stated fails: with the transcription performed (the clip lasts 10 seconds) and
  returning the empty string, the transcript of the stored record is null, and so it is
  for the clip of 3 seconds whose transcription was skipped.
\<close>

theorem empty_transcript_null_counterexample:
  "fst (processVideo empty_transcript_services sample_world sample_video False [''videos''])
     = Inr (Processed ''2_dog-runs-ab12.mov'') \<and>
   map_sum id (\<lambda>a. read_prop a ''needsTranscript'') (analyzeInitialFrame empty_transcript_services)
     = Inr (Some (JBool True)) \<and>
   transcription empty_transcript_services = Inr [] \<and>
   map (s_transcript \<circ> st_summary) (records_of (json_store
       (snd (processVideo empty_transcript_services sample_world sample_video False [''videos'']))
       [''videos''])) = [None] \<and>
   map_sum id (\<lambda>a. read_prop a ''needsTranscript'') (analyzeInitialFrame short_clip_services)
     = Inr (Some (JBool False)) \<and>
   map (s_transcript \<circ> st_summary) (records_of (json_store
       (snd (processVideo short_clip_services sample_world sample_video False [''videos'']))
       [''videos''])) = [None]"
  by code_simp

text \<open>
  C6, as the code has it: hasMetadata reads the comment through Finder and trims it. When
  that reading succeeds and the trimmed comment is not empty, a run with force = false
  only logs that it skips the asset: both stores, the files and the comments are as
  before. (A comment of white space only, or one that Finder cannot read, counts as none.)
\<close>

theorem processVideo_skips_annotated:
  assumes "finder_get_ok sv" and "files w videoPath" and "trim_units (comments w videoPath) \<noteq> []"
  shows "\<exists>w'. processVideo sv w videoPath False targetDir = (Inr Skipped, w') \<and>
     txt_store w' = txt_store w \<and> json_store w' = json_store w \<and>
     files w' = files w \<and> comments w' = comments w \<and>
     console w' = console w @ [Skipping videoPath]"
  using assms by (simp add: processVideo_def hasMetadata_def)

theorem processVideo_skips_annotated_witness:
  "finder_get_ok sample_services \<and> files annotated_world sample_video \<and>
   trim_units (comments annotated_world sample_video) \<noteq> [] \<and>
   (\<exists>w'. processVideo sample_services annotated_world sample_video False [''videos'']
       = (Inr Skipped, w') \<and>
     txt_store w' = txt_store annotated_world \<and> json_store w' = json_store annotated_world \<and>
     files w' = files annotated_world \<and> comments w' = comments annotated_world \<and>
     console w' = console annotated_world @ [Skipping sample_video])"
proof -
  have a: "finder_get_ok sample_services" by code_simp
  have b: "files annotated_world sample_video" by code_simp
  have c: "trim_units (comments annotated_world sample_video) \<noteq> []" by code_simp
  from processVideo_skips_annotated [OF a b c, of "[''videos'']"] a b c show ?thesis by blast
qed

text \<open>
  C6 as stated fails: a comment of one space is not empty, yet the run with force = false
  processes the asset, appends a record to both stores and renames the file.
\<close>

theorem blank_comment_counterexample:
  "comments blank_comment_world sample_video \<noteq> [] \<and>
   fst (processVideo sample_services blank_comment_world sample_video False [''videos''])
     = Inr (Processed ''2_dog-runs-ab12.mov'') \<and>
   txt_store blank_comment_world [''videos''] = [] \<and>
   json_store blank_comment_world [''videos''] = Unreadable \<and>
   map st_path (txt_store
       (snd (processVideo sample_services blank_comment_world sample_video False [''videos'']))
       [''videos'']) = [[''videos'', ''2_dog-runs-ab12.mov'']] \<and>
   map st_path (records_of (json_store
       (snd (processVideo sample_services blank_comment_world sample_video False [''videos'']))
       [''videos''])) = [[''videos'', ''2_dog-runs-ab12.mov'']] \<and>
   \<not> files (snd (processVideo sample_services blank_comment_world sample_video False [''videos'']))
       sample_video \<and>
   files (snd (processVideo sample_services blank_comment_world sample_video False [''videos'']))
       [''videos'', ''2_dog-runs-ab12.mov'']"
  by code_simp

text \<open>
  C9: when the script that sets the comment fails in the commit step, processVideo still
  completes: the record is in both stores, the file is at its new path with the comment
  it had before, and the failure is only logged. If that comment was blank, no later run
  with force = false skips the file at its new path, and one that completes appends a
  second record.
\<close>

theorem processVideo_comment_fails:
  assumes "force \<or> \<not> hasMetadata sv w videoPath"
    and "gather sv videoPath = Inr ev"
    and "json_store w targetDir \<noteq> NotArray"
    and "files w videoPath" and "rename_error sv = None"
    and "\<not> finder_set_ok sv"
  shows "\<exists>w' st. processVideo sv w videoPath force targetDir
        = (Inr (Processed (ev_newFileName ev)), w') \<and>
     txt_store w' targetDir = txt_store w targetDir @ [st] \<and>
     json_store w' targetDir = Records (records_of (json_store w targetDir) @ [st]) \<and>
     files w' (dirname videoPath @ [ev_newFileName ev]) \<and>
     (dirname videoPath @ [ev_newFileName ev] \<noteq> videoPath \<longrightarrow> \<not> files w' videoPath) \<and>
     comments w' (dirname videoPath @ [ev_newFileName ev]) = comments w videoPath \<and>
     FailedToSetComment \<in> set (console w') \<and>
     (trim_units (comments w videoPath) = [] \<longrightarrow>
        (\<forall>sv2. fst (processVideo sv2 w' (dirname videoPath @ [ev_newFileName ev]) False targetDir)
             \<noteq> Inr Skipped \<and>
          (\<forall>n w2. processVideo sv2 w' (dirname videoPath @ [ev_newFileName ev]) False targetDir
                = (Inr (Processed n), w2) \<longrightarrow>
             (\<exists>st2. txt_store w2 targetDir = txt_store w targetDir @ [st, st2] \<and>
                json_store w2 targetDir
                  = Records (records_of (json_store w targetDir) @ [st, st2])))))"
proof -
  let ?new = "dirname videoPath @ [ev_newFileName ev]"
  from commit_comment_fails [OF assms(3-6), of ev] obtain w'
    where c: "commit sv w videoPath targetDir ev = (Inr (Processed (ev_newFileName ev)), w')"
      and f: "files w' ?new" "comments w' ?new = comments w videoPath"
        "?new \<noteq> videoPath \<longrightarrow> \<not> files w' videoPath" "FailedToSetComment \<in> set (console w')"
    by blast
  have p: "processVideo sv w videoPath force targetDir
        = (Inr (Processed (ev_newFileName ev)), w')"
    by (simp add: processVideo_runs [OF assms(1,2)] c)
  from processVideo_appends [OF p] obtain st
    where s: "txt_store w' targetDir = txt_store w targetDir @ [st]"
      "json_store w' targetDir = Records (records_of (json_store w targetDir) @ [st])"
    by blast
  have later: "fst (processVideo sv2 w' ?new False targetDir) \<noteq> Inr Skipped \<and>
          (\<forall>n w2. processVideo sv2 w' ?new False targetDir = (Inr (Processed n), w2) \<longrightarrow>
             (\<exists>st2. txt_store w2 targetDir = txt_store w targetDir @ [st, st2] \<and>
                json_store w2 targetDir
                  = Records (records_of (json_store w targetDir) @ [st, st2])))"
    if blank: "trim_units (comments w videoPath) = []" for sv2
  proof (intro conjI allI impI)
    from blank f(2) have "\<not> hasMetadata sv2 w' ?new"
      by (simp add: hasMetadata_blank)
    then show "fst (processVideo sv2 w' ?new False targetDir) \<noteq> Inr Skipped"
      by (rule processVideo_not_skipped)
  next
    fix n w2
    assume "processVideo sv2 w' ?new False targetDir = (Inr (Processed n), w2)"
    from processVideo_appends [OF this] s
    show "\<exists>st2. txt_store w2 targetDir = txt_store w targetDir @ [st, st2] \<and>
                json_store w2 targetDir
                  = Records (records_of (json_store w targetDir) @ [st, st2])"
      by auto
  qed
  from p s f later show ?thesis by blast
qed

theorem processVideo_comment_fails_witness:
  "(False \<or> \<not> hasMetadata comment_refused_services sample_world sample_video) \<and>
   gather comment_refused_services sample_video = Inr sample_evidence \<and>
   json_store sample_world [''videos''] \<noteq> NotArray \<and>
   files sample_world sample_video \<and> rename_error comment_refused_services = None \<and>
   \<not> finder_set_ok comment_refused_services \<and>
   trim_units (comments sample_world sample_video) = [] \<and>
   (\<exists>w' w2 st st2.
      processVideo comment_refused_services sample_world sample_video False [''videos'']
        = (Inr (Processed ''2_dog-runs-ab12.mov''), w') \<and>
      files w' [''videos'', ''2_dog-runs-ab12.mov''] \<and> \<not> files w' sample_video \<and>
      comments w' [''videos'', ''2_dog-runs-ab12.mov''] = [] \<and>
      FailedToSetComment \<in> set (console w') \<and>
      processVideo sample_services w' [''videos'', ''2_dog-runs-ab12.mov''] False [''videos'']
        = (Inr (Processed ''2_dog-runs-ab12.mov''), w2) \<and>
      txt_store w2 [''videos''] = [st, st2] \<and>
      json_store w2 [''videos''] = Records [st, st2])"
proof -
  let ?new = "[''videos'', ''2_dog-runs-ab12.mov'']"
  have h: "False \<or> \<not> hasMetadata comment_refused_services sample_world sample_video"
    by code_simp
  have g: "gather comment_refused_services sample_video = Inr sample_evidence"
    by code_simp
  have j: "json_store sample_world [''videos''] \<noteq> NotArray"
    by (simp add: sample_world_def)
  have f: "files sample_world sample_video" by (simp add: sample_world_def)
  have r: "rename_error comment_refused_services = None" by code_simp
  have c: "\<not> finder_set_ok comment_refused_services" by code_simp
  have b: "trim_units (comments sample_world sample_video) = []" by code_simp
  have s: "txt_store sample_world [''videos''] = []"
    "records_of (json_store sample_world [''videos'']) = []"
    "comments sample_world sample_video = []"
    "dirname sample_video @ [ev_newFileName sample_evidence] = ?new"
    "?new \<noteq> sample_video"
    by (simp_all add: sample_world_def sample_video_def sample_evidence_def dirname_def)
  have nm: "ev_newFileName sample_evidence = ''2_dog-runs-ab12.mov''"
    by (simp add: sample_evidence_def)
  from processVideo_comment_fails [OF h g j f r c] b
  obtain w' st where w0: "processVideo comment_refused_services sample_world sample_video False
        [''videos''] = (Inr (Processed (ev_newFileName sample_evidence)), w')"
    and k0: "files w' (dirname sample_video @ [ev_newFileName sample_evidence])"
      "dirname sample_video @ [ev_newFileName sample_evidence] \<noteq> sample_video \<longrightarrow>
         \<not> files w' sample_video"
      "comments w' (dirname sample_video @ [ev_newFileName sample_evidence])
         = comments sample_world sample_video"
      "FailedToSetComment \<in> set (console w')"
    and l0: "\<forall>sv2. fst (processVideo sv2 w'
               (dirname sample_video @ [ev_newFileName sample_evidence]) False [''videos''])
             \<noteq> Inr Skipped \<and>
          (\<forall>n w2. processVideo sv2 w'
               (dirname sample_video @ [ev_newFileName sample_evidence]) False [''videos'']
                = (Inr (Processed n), w2) \<longrightarrow>
             (\<exists>st2. txt_store w2 [''videos''] = txt_store sample_world [''videos''] @ [st, st2] \<and>
                json_store w2 [''videos'']
                  = Records (records_of (json_store sample_world [''videos'']) @ [st, st2])))"
    by blast
  from w0 have w': "processVideo comment_refused_services sample_world sample_video False
        [''videos''] = (Inr (Processed ''2_dog-runs-ab12.mov''), w')"
    by (simp only: nm)
  from k0 have k: "files w' ?new" "\<not> files w' sample_video" "comments w' ?new = []"
      "FailedToSetComment \<in> set (console w')"
    by (simp_all only: s not_False_eq_True simp_thms)
  note l = l0 [unfolded s]
  from w' have e: "w' = snd (processVideo comment_refused_services sample_world sample_video False
        [''videos''])" by simp
  have "fst (processVideo sample_services
      (snd (processVideo comment_refused_services sample_world sample_video False [''videos'']))
      ?new False [''videos'']) = Inr (Processed ''2_dog-runs-ab12.mov'')"
    by code_simp
  then have "processVideo sample_services w' ?new False [''videos'']
      = (Inr (Processed ''2_dog-runs-ab12.mov''),
         snd (processVideo sample_services w' ?new False [''videos'']))"
    unfolding e by (metis prod.collapse)
  with l obtain w2 st2 where "processVideo sample_services w' ?new False [''videos'']
      = (Inr (Processed ''2_dog-runs-ab12.mov''), w2)"
    "txt_store w2 [''videos''] = [st, st2]" "json_store w2 [''videos''] = Records [st, st2]"
    by (metis append_Nil)
  with w' k h g j f r c b show ?thesis by blast
qed

section \<open>The retries of compressVideo\<close>

lemma after_delay_fields [simp]:
  "c_delays (after_delay r) = RETRY_DELAY # c_delays r"
  "c_calls (after_delay r) = Suc (c_calls r)"
  "c_result (after_delay r) = c_result r"
  by (simp_all add: after_delay_def)

lemma thrown_fields [simp]:
  "c_delays (thrown e) = []" "c_calls (thrown e) = 1" "c_result (thrown e) = Inl e"
  by (simp_all add: thrown_def)

lemma compressVideo_bounds:
  "length (c_delays (compressVideo p answers n)) \<le> MAX_RETRIES - n \<and>
   c_calls (compressVideo p answers n) = Suc (length (c_delays (compressVideo p answers n))) \<and>
   set (c_delays (compressVideo p answers n)) \<subseteq> {RETRY_DELAY}"
proof (induction p answers n rule: compressVideo.induct)
  case (1 p answers n)
  show ?case
    using 1 by (subst (1 2 3 4) compressVideo.simps)
      (auto split: option.splits sum.splits simp: not_le Suc_le_eq)
qed

lemma compressVideo_codec_error:
  assumes "reaches_transcoder p (answers n)" and "transcode (answers n) = Inl message"
    and "\<not> drive_issue message"
  shows "compressVideo p answers n = thrown (Error message)"
  using assms by (subst compressVideo.simps) (auto simp: reaches_transcoder_def)

lemma compressVideo_transient:
  assumes "reaches_transcoder p (answers n)" and "transcode (answers n) = Inl message"
    and "drive_issue message" and "n < MAX_RETRIES"
  shows "compressVideo p answers n = after_delay (compressVideo p answers (Suc n))"
  using assms by (subst compressVideo.simps) (auto simp: reaches_transcoder_def)

lemma compressVideo_success:
  assumes "reaches_transcoder p (answers n)" and "transcode (answers n) = Inr output"
  shows "compressVideo p answers n = \<lparr>c_result = Inr output, c_delays = [], c_calls = 1\<rparr>"
  using assms by (subst compressVideo.simps) (auto simp: reaches_transcoder_def)

lemma compressVideo_unreadable:
  assumes "(includes_str p '':'' \<or> startsWith p ''/Volumes/'') \<longrightarrow> drive_accessible (answers n)"
    and "access_error (answers n) \<noteq> None \<or> ffprobe_error (answers n) \<noteq> None"
    and "n < MAX_RETRIES"
  shows "compressVideo p answers n = after_delay (compressVideo p answers (Suc n))"
  using assms by (subst compressVideo.simps) (auto split: option.splits)

text \<open>
  C5, as the code has it: compressVideo retries at most MAX_RETRIES = 3 times, so it makes
  up to 4 calls, and waits the fixed RETRY_DELAY before every retry. An error of the
  transcoding block is retried only while retries are left and its message contains
  ECANCELED, read, I/O or operation canceled; with any other message it is thrown at once,
  with no retry. A failing fs.access or ffprobe is retried whatever its message says, while
  retries are left. Drive errors on the first two calls and a success on the third give
  the output after exactly two waits.
\<close>

theorem compressVideo_retry_policy:
  "length (c_delays (compressVideo p answers 0)) \<le> MAX_RETRIES \<and>
   c_calls (compressVideo p answers 0) = Suc (length (c_delays (compressVideo p answers 0))) \<and>
   (\<forall>d \<in> set (c_delays (compressVideo p answers 0)). d = RETRY_DELAY) \<and>
   (\<forall>n message.
      reaches_transcoder p (answers n) \<and> transcode (answers n) = Inl message \<and>
      \<not> drive_issue message \<longrightarrow>
      compressVideo p answers n = thrown (Error message)) \<and>
   (\<forall>n message.
      reaches_transcoder p (answers n) \<and> transcode (answers n) = Inl message \<and>
      drive_issue message \<and> n < MAX_RETRIES \<longrightarrow>
      compressVideo p answers n = after_delay (compressVideo p answers (Suc n))) \<and>
   (\<forall>n.
      ((includes_str p '':'' \<or> startsWith p ''/Volumes/'') \<longrightarrow> drive_accessible (answers n)) \<and>
      (access_error (answers n) \<noteq> None \<or> ffprobe_error (answers n) \<noteq> None) \<and>
      n < MAX_RETRIES \<longrightarrow>
      compressVideo p answers n = after_delay (compressVideo p answers (Suc n))) \<and>
   (\<forall>m1 m2 output.
      reaches_transcoder p (answers 0) \<and> transcode (answers 0) = Inl m1 \<and> drive_issue m1 \<and>
      reaches_transcoder p (answers 1) \<and> transcode (answers 1) = Inl m2 \<and> drive_issue m2 \<and>
      reaches_transcoder p (answers 2) \<and> transcode (answers 2) = Inr output \<longrightarrow>
      compressVideo p answers 0
        = \<lparr>c_result = Inr output, c_delays = [RETRY_DELAY, RETRY_DELAY], c_calls = 3\<rparr>)"
proof (intro conjI allI impI ballI)
  show "length (c_delays (compressVideo p answers 0)) \<le> MAX_RETRIES"
    using compressVideo_bounds [of p answers 0] by simp
  show "c_calls (compressVideo p answers 0) = Suc (length (c_delays (compressVideo p answers 0)))"
    using compressVideo_bounds [of p answers 0] by simp
  show "d = RETRY_DELAY" if "d \<in> set (c_delays (compressVideo p answers 0))" for d
    using compressVideo_bounds [of p answers 0] that by auto
  show "compressVideo p answers n = thrown (Error message)"
    if "reaches_transcoder p (answers n) \<and> transcode (answers n) = Inl message \<and>
      \<not> drive_issue message" for n message
    using that by (simp add: compressVideo_codec_error)
  show "compressVideo p answers n = after_delay (compressVideo p answers (Suc n))"
    if "reaches_transcoder p (answers n) \<and> transcode (answers n) = Inl message \<and>
      drive_issue message \<and> n < MAX_RETRIES" for n message
    using that by (simp add: compressVideo_transient)
  show "compressVideo p answers n = after_delay (compressVideo p answers (Suc n))"
    if "((includes_str p '':'' \<or> startsWith p ''/Volumes/'') \<longrightarrow> drive_accessible (answers n)) \<and>
      (access_error (answers n) \<noteq> None \<or> ffprobe_error (answers n) \<noteq> None) \<and>
      n < MAX_RETRIES" for n
    using that by (intro compressVideo_unreadable) auto
  show "compressVideo p answers 0
        = \<lparr>c_result = Inr out, c_delays = [RETRY_DELAY, RETRY_DELAY], c_calls = 3\<rparr>"
    if h: "reaches_transcoder p (answers 0) \<and> transcode (answers 0) = Inl m1 \<and> drive_issue m1 \<and>
      reaches_transcoder p (answers 1) \<and> transcode (answers 1) = Inl m2 \<and> drive_issue m2 \<and>
      reaches_transcoder p (answers 2) \<and> transcode (answers 2) = Inr out" for m1 m2 out
  proof -
    have 2: "compressVideo p answers (Suc (Suc 0))
        = \<lparr>c_result = Inr out, c_delays = [], c_calls = 1\<rparr>"
      using h compressVideo_success [of p answers 2 out] by (simp add: numeral_2_eq_2)
    have 1: "compressVideo p answers (Suc 0) = after_delay (compressVideo p answers (Suc (Suc 0)))"
      using h compressVideo_transient [of p answers 1 m2] by (simp add: MAX_RETRIES_def)
    have 0: "compressVideo p answers 0 = after_delay (compressVideo p answers (Suc 0))"
      using h compressVideo_transient [of p answers 0 m1] by (simp add: MAX_RETRIES_def)
    show ?thesis by (simp add: 0 1 2 after_delay_def)
  qed
qed

theorem compressVideo_retry_policy_witness:
  "reaches_transcoder ''videos/a.mov'' (canceled_until 2 0) \<and>
   transcode (canceled_until 2 0) = Inl ''Error: ECANCELED: operation canceled, read'' \<and>
   reaches_transcoder ''videos/a.mov'' (canceled_until 2 1) \<and>
   transcode (canceled_until 2 1) = Inl ''Error: ECANCELED: operation canceled, read'' \<and>
   drive_issue ''Error: ECANCELED: operation canceled, read'' \<and>
   reaches_transcoder ''videos/a.mov'' (canceled_until 2 2) \<and>
   transcode (canceled_until 2 2) = Inr ''small'' \<and>
   compressVideo ''videos/a.mov'' (canceled_until 2) 0
     = \<lparr>c_result = Inr ''small'', c_delays = [RETRY_DELAY, RETRY_DELAY], c_calls = 3\<rparr> \<and>
   compressVideo ''videos/a.mov'' (canceled_until 2) 0
     = after_delay (compressVideo ''videos/a.mov'' (canceled_until 2) (Suc 0)) \<and>
   reaches_transcoder ''videos/a.mov'' codec_attempt \<and>
   transcode codec_attempt = Inl ''ffmpeg exited with code 1: Unknown encoder libx264'' \<and>
   \<not> drive_issue ''ffmpeg exited with code 1: Unknown encoder libx264'' \<and>
   compressVideo ''videos/a.mov'' (\<lambda>n. codec_attempt) 0
     = thrown (Error ''ffmpeg exited with code 1: Unknown encoder libx264'') \<and>
   ffprobe_error (bad_header_until 1 0) \<noteq> None \<and>
   compressVideo ''videos/a.mov'' (bad_header_until 1) 0
     = after_delay (compressVideo ''videos/a.mov'' (bad_header_until 1) (Suc 0)) \<and>
   length (c_delays (compressVideo ''videos/a.mov'' (canceled_until 4) 0)) \<le> MAX_RETRIES"
proof -
  let ?m = "''Error: ECANCELED: operation canceled, read''"
  let ?c = "''ffmpeg exited with code 1: Unknown encoder libx264''"
  have a: "reaches_transcoder ''videos/a.mov'' (canceled_until 2 0)"
    "transcode (canceled_until 2 0) = Inl ?m"
    "reaches_transcoder ''videos/a.mov'' (canceled_until 2 1)"
    "transcode (canceled_until 2 1) = Inl ?m"
    "drive_issue ?m"
    "reaches_transcoder ''videos/a.mov'' (canceled_until 2 2)"
    "transcode (canceled_until 2 2) = Inr ''small''"
    by code_simp+
  have b: "reaches_transcoder ''videos/a.mov'' codec_attempt"
    "transcode codec_attempt = Inl ?c" "\<not> drive_issue ?c"
    by code_simp+
  have c: "ffprobe_error (bad_header_until 1 0) \<noteq> None"
    "(includes_str ''videos/a.mov'' '':'' \<or> startsWith ''videos/a.mov'' ''/Volumes/'') \<longrightarrow>
       drive_accessible (bad_header_until 1 0)"
    "(0::nat) < MAX_RETRIES"
    by code_simp+
  note t1 = compressVideo_retry_policy [of "''videos/a.mov''" "canceled_until 2"]
  note t2 = compressVideo_retry_policy [of "''videos/a.mov''" "\<lambda>n. codec_attempt"]
  note t3 = compressVideo_retry_policy [of "''videos/a.mov''" "bad_header_until 1"]
  note t4 = compressVideo_retry_policy [of "''videos/a.mov''" "canceled_until 4"]
  from t1 a have 1: "compressVideo ''videos/a.mov'' (canceled_until 2) 0
     = \<lparr>c_result = Inr ''small'', c_delays = [RETRY_DELAY, RETRY_DELAY], c_calls = 3\<rparr>"
    by blast
  from t1 a c(3) have 2: "compressVideo ''videos/a.mov'' (canceled_until 2) 0
     = after_delay (compressVideo ''videos/a.mov'' (canceled_until 2) (Suc 0))"
    by blast
  from t2 b have 3: "compressVideo ''videos/a.mov'' (\<lambda>n. codec_attempt) 0 = thrown (Error ?c)"
    by blast
  from t3 c have 4: "compressVideo ''videos/a.mov'' (bad_header_until 1) 0
     = after_delay (compressVideo ''videos/a.mov'' (bad_header_until 1) (Suc 0))"
    by blast
  from t4 have 5: "length (c_delays (compressVideo ''videos/a.mov'' (canceled_until 4) 0)) \<le> MAX_RETRIES"
    by blast
  from a b c(1) 1 2 3 4 5 show ?thesis by blast
qed

text \<open>
  C5 as stated fails twice: with the drive error on the first three calls the fourth call
  is made and succeeds, after three waits; and a failing ffprobe is retried although its
  message contains none of the four substrings.
\<close>

theorem four_calls_counterexample:
  "compressVideo ''videos/a.mov'' (canceled_until 3) 0
     = \<lparr>c_result = Inr ''small'', c_delays = [5000, 5000, 5000], c_calls = 4\<rparr> \<and>
   ffprobe_error (bad_header_until 1 0) = Some ''Invalid data found when processing input'' \<and>
   \<not> drive_issue ''Invalid data found when processing input'' \<and>
   compressVideo ''videos/a.mov'' (bad_header_until 1) 0
     = \<lparr>c_result = Inr ''small'', c_delays = [5000], c_calls = 2\<rparr>"
  by code_simp

section \<open>The file system and the turn in clobber mode\<close>

lemma fs_exists_keys: "fs_exists fs p \<longleftrightarrow> p \<in> fst ` set fs"
  by (simp add: fs_exists_def map_of_eq_None_iff)

lemma map_of_key_filter:
  "map_of (filter (\<lambda>(q, n). P q) fs) p = (if P p then map_of fs p else None)"
  by (induction fs) auto

lemma keys_key_filter: "fst ` set (filter (\<lambda>(q, n). P q) fs) = {q \<in> fst ` set fs. P q}"
  by (induction fs) auto

lemma has_entries_keys: "list_ex (\<lambda>(q, n). is_inside d q) fs \<longleftrightarrow> (\<exists>q \<in> fst ` set fs. is_inside d q)"
  by (force simp: list_ex_iff)

lemma fs_ensureDir_Inr:
  assumes "fs_ensureDir fs d = Inr fs1"
  shows "map_of fs1 = (map_of fs)(d \<mapsto> Dir)" and "fst ` set fs1 = insert d (fst ` set fs)"
proof -
  show "map_of fs1 = (map_of fs)(d \<mapsto> Dir)"
    using assms by (auto simp: fs_ensureDir_def split: option.splits node.splits)
  then have "dom (map_of fs1) = insert d (dom (map_of fs))" by simp
  then show "fst ` set fs1 = insert d (fst ` set fs)"
    by (simp add: dom_map_of_conv_image_fst)
qed

lemma map_of_fs_remove: "map_of (fs_remove fs p) q = (if is_under p q then None else map_of fs q)"
  by (simp add: fs_remove_def map_of_key_filter)

lemma keys_fs_remove: "fst ` set (fs_remove fs p) = {q \<in> fst ` set fs. \<not> is_under p q}"
  unfolding fs_remove_def by (rule keys_key_filter)

lemma map_of_map_key:
  "(\<forall>q \<in> fst ` set fs. g q = g p \<longrightarrow> q = p) \<Longrightarrow>
   map_of (map (\<lambda>(q, n). (g q, n)) fs) (g p) = map_of fs p"
  by (induction fs) auto

lemma keys_map_key: "fst ` set (map (\<lambda>(q, n). (g q, n)) fs) = g ` fst ` set fs"
  by (induction fs) auto

lemma under_self_only: "is_under s q \<Longrightarrow> drop (length s) q = [] \<Longrightarrow> q = s"
  by (metis append_Nil2 append_take_drop_id is_under_def)

lemma fs_move_Inr:
  assumes "fs_move fs src dest = Inr fs'"
  shows "src \<in> fst ` set fs" and "dest \<notin> fst ` set fs"
    and "fst ` set fs' = (\<lambda>q. if is_under src q then dest @ drop (length src) q else q) ` fst ` set fs"
    and "map_of fs' dest = map_of fs src"
proof -
  let ?g = "\<lambda>q. if is_under src q then dest @ drop (length src) q else q"
  from assms have s: "src \<in> fst ` set fs" and d: "dest \<notin> fst ` set fs"
    and e: "fs' = map (\<lambda>(q, n). (?g q, n)) fs"
    by (auto simp: fs_move_def fs_exists_keys split: if_splits)
  show "src \<in> fst ` set fs" "dest \<notin> fst ` set fs" by (rule s, rule d)
  show "fst ` set fs' = ?g ` fst ` set fs"
    unfolding e by (rule keys_map_key)
  have u: "is_under src src" by (simp add: is_under_def)
  have "\<forall>q \<in> fst ` set fs. ?g q = ?g src \<longrightarrow> q = src"
    using d u by (auto dest: under_self_only)
  from map_of_map_key [of fs ?g src, OF this] u show "map_of fs' dest = map_of fs src"
    by (simp add: e)
qed

lemma fs_move_Inl:
  assumes "fs_move fs src dest = Inl e" and "src \<in> fst ` set fs"
  shows "dest \<in> fst ` set fs"
  using assms by (auto simp: fs_move_def fs_exists_keys split: if_splits)

lemma fs_rmdir_Inr:
  assumes "fs_rmdir fs d = Inr fs'"
  shows "map_of fs' p = (if p = d then None else map_of fs p)"
  using assms
  by (auto simp: fs_rmdir_def map_of_key_filter split: option.splits node.splits if_splits)

lemma fs_rmdir_Inl: "fs_rmdir fs d = Inl e \<Longrightarrow> \<not> empty_dir fs d"
  by (auto simp: fs_rmdir_def empty_dir_def split: option.splits node.splits if_splits)

lemma under_child [simp]: "is_under (d @ [x]) (d @ y # ys) \<longleftrightarrow> x = y"
  by (auto simp: is_under_def)

lemma under_refl [simp]: "is_under p p"
  by (simp add: is_under_def)

lemma inside_child [simp]: "is_inside d (d @ y # ys)"
  by (simp add: is_inside_def is_under_def)



lemma endsWith_lower: "endsWith n s \<Longrightarrow> endsWith (toLowerCase n) (toLowerCase s)"
  by (auto simp: endsWith_def toLowerCase_def drop_map)

lemma temp_output_not_mov: "endsWith (toLowerCase f) ''.mov'' \<Longrightarrow> f \<noteq> ''temp_output''"
proof
  assume a: "endsWith (toLowerCase f) ''.mov''" and "f = ''temp_output''"
  then have "endsWith (toLowerCase ''temp_output'') ''.mov''" by simp
  moreover have "\<not> endsWith (toLowerCase ''temp_output'') ''.mov''" by code_simp
  ultimately show False by simp
qed

lemma lower_mp4: "toLowerCase ''.mp4'' = ''.mp4''" by code_simp

lemma mp4_not_mov: "endsWith n ''.mp4'' \<Longrightarrow> \<not> endsWith (toLowerCase n) ''.mov''"
proof
  assume "endsWith n ''.mp4''" and m: "endsWith (toLowerCase n) ''.mov''"
  then have "endsWith (toLowerCase n) ''.mp4''"
    using endsWith_lower [of n "''.mp4''"] by (simp add: lower_mp4)
  with m show False by (auto simp: endsWith_def)
qed

lemma mp4_not_temp_output: "endsWith n ''.mp4'' \<Longrightarrow> n \<noteq> ''temp_output''"
proof
  assume "endsWith n ''.mp4''" and "n = ''temp_output''"
  then have "endsWith ''temp_output'' ''.mp4''" by simp
  moreover have "\<not> endsWith ''temp_output'' ''.mp4''" by code_simp
  ultimately show False by simp
qed


lemma process_file_clobber_success:
  assumes "c_result (compressVideo (path_string (dir @ [f])) (answers (dir @ [f])) 0) = Inr c"
    and "process_file dir force True answers fs f = Inr (st, fs')"
  shows "\<exists>fs1. fs_ensureDir fs (dir @ [''temp_output'']) = Inr fs1 \<and>
     (st, fs') = replace_original
        (AList.update (dir @ [''temp_output'', basename_ext f ''.mov'' @ ''.mp4'']) (File c) fs1)
        (dir @ [f]) (dir @ [''temp_output'', basename_ext f ''.mov'' @ ''.mp4''])"
proof (cases "fs_ensureDir fs (dir @ [''temp_output''])")
  case (Inl e)
  with assms(2) show ?thesis by (simp add: process_file_def Let_def)
next
  case (Inr fs1)
  with assms show ?thesis by (simp add: process_file_def Let_def basename_def)
qed



text \<open>The replacement, for a name that is not the one of the staging directory.\<close>

lemma replace_original_props:
  assumes r: "(st, fs') = replace_original fs (dir @ [f]) (dir @ [''temp_output'', b])"
    and o: "map_of fs (dir @ [''temp_output'', b]) = Some (File c)"
    and f: "f \<noteq> ''temp_output''" and g: "replace_mov f \<noteq> ''temp_output''"
  shows "(replace_mov f \<noteq> f \<longrightarrow> map_of fs' (dir @ [f]) = None) \<and>
      map_of fs' (dir @ [replace_mov f]) \<noteq> None \<and>
      \<not> empty_dir fs' (dir @ [''temp_output'']) \<and>
      (replace_mov f = f \<or> map_of fs (dir @ [replace_mov f]) = None \<longrightarrow>
         st = CompressedFile \<and> map_of fs' (dir @ [replace_mov f]) = Some (File c)) \<and>
      (replace_mov f = f \<longrightarrow>
         (\<forall>n. dir @ [n] \<in> fst ` set fs' \<longrightarrow> n = f \<or> dir @ [n] \<in> fst ` set fs))"
proof -
  let ?F = "dir @ [f]" and ?T = "dir @ [''temp_output'']" and ?O = "dir @ [''temp_output'', b]"
  let ?G = "dir @ [replace_mov f]"
  let ?fs1 = "fs_remove fs ?F"
  have m1: "map_of ?fs1 q = (if is_under ?F q then None else map_of fs q)" for q
    by (rule map_of_fs_remove)
  have k1: "fst ` set ?fs1 = {q \<in> fst ` set fs. \<not> is_under ?F q}"
    by (rule keys_fs_remove)
  have o1: "map_of ?fs1 ?O = Some (File c)" using o f by (simp add: m1)
  then have ok1: "?O \<in> fst ` set ?fs1" by (metis fs_exists_def fs_exists_keys option.distinct(1))
  have nF1: "?F \<notin> fst ` set ?fs1" by (simp add: k1)
  show ?thesis
  proof (cases "fs_move ?fs1 ?O ?G")
    case (Inl e)
    with r have st: "st = FailedFile" and fs': "fs' = ?fs1"
      by (simp_all add: replace_original_def Let_def basename_def dirname_def)
    from fs_move_Inl [OF Inl ok1] have G: "?G \<in> fst ` set ?fs1" .
    then have Gn: "map_of ?fs1 ?G \<noteq> None" by (simp add: map_of_eq_None_iff)
    have ne: "replace_mov f \<noteq> f"
    proof
      assume "replace_mov f = f"
      with G nF1 show False by simp
    qed
    from Gn have Gfs: "map_of fs ?G \<noteq> None" by (simp add: m1 split: if_splits)
    have "is_inside ?T ?O" by (simp add: is_inside_def is_under_def)
    with ok1 have "list_ex (\<lambda>(q, n). is_inside ?T q) ?fs1"
      unfolding has_entries_keys by blast
    then have e: "\<not> empty_dir ?fs1 ?T" by (simp add: empty_dir_def)
    have F: "map_of ?fs1 ?F = None" by (simp add: m1)
    from F Gn e ne Gfs show ?thesis unfolding fs' by blast
  next
    case (Inr fs2)
    let ?g = "\<lambda>q. if is_under ?O q then ?G @ drop (length ?O) q else q"
    from fs_move_Inr [OF Inr] have G1: "?G \<notin> fst ` set ?fs1"
      and k2: "fst ` set fs2 = ?g ` fst ` set ?fs1"
      and m2: "map_of fs2 ?G = Some (File c)"
      by (simp_all add: o1)
    have nF2: "?F \<notin> fst ` set fs2" if "replace_mov f \<noteq> f"
    proof
      assume "?F \<in> fst ` set fs2"
      then have "?F \<in> ?g ` fst ` set ?fs1" unfolding k2 .
      then obtain q where q: "q \<in> fst ` set ?fs1" "?g q = ?F" by (rule imageE) simp
      show False
      proof (cases "is_under ?O q")
        case True
        with q(2) have "dir @ replace_mov f # drop (length ?O) q = dir @ [f]" by simp
        with that show False by simp
      next
        case False
        with q nF1 show False by simp
      qed
    qed
    have old: "n = f \<or> dir @ [n] \<in> fst ` set fs"
      if same: "replace_mov f = f" and n: "dir @ [n] \<in> fst ` set fs2" for n
    proof -
      from n have "dir @ [n] \<in> ?g ` fst ` set ?fs1" unfolding k2 .
      then obtain q where q: "q \<in> fst ` set ?fs1" "?g q = dir @ [n]" by (rule imageE) simp
      show ?thesis
      proof (cases "is_under ?O q")
        case True
        with q(2) have "dir @ replace_mov f # drop (length ?O) q = dir @ [n]" by simp
        then have "n = replace_mov f" by simp
        with same show ?thesis by simp
      next
        case False
        with q show ?thesis by (simp add: k1)
      qed
    qed
    from r Inr have st: "st = CompressedFile"
      and fs': "fs' = (case fs_rmdir fs2 ?T of Inl e \<Rightarrow> fs2 | Inr fs3 \<Rightarrow> fs3)"
      by (simp_all add: replace_original_def Let_def basename_def dirname_def butlast_append)
    show ?thesis
    proof (cases "fs_rmdir fs2 ?T")
      case (Inl e)
      then have e: "fs' = fs2" by (simp add: fs')
      have 1: "replace_mov f \<noteq> f \<longrightarrow> map_of fs2 ?F = None"
        using nF2 by (simp add: map_of_eq_None_iff)
      have 3: "\<not> empty_dir fs2 ?T" using Inl by (rule fs_rmdir_Inl)
      have 5: "replace_mov f = f \<longrightarrow>
         (\<forall>n. dir @ [n] \<in> fst ` set fs2 \<longrightarrow> n = f \<or> dir @ [n] \<in> fst ` set fs)"
        using old by blast
      from 1 m2 3 st 5 show ?thesis unfolding e by blast
    next
      case (Inr fs3)
      then have e: "fs' = fs3" by (simp add: fs')
      have m3: "map_of fs3 p = (if p = ?T then None else map_of fs2 p)" for p
        by (rule fs_rmdir_Inr [OF Inr])
      have k3: "p \<in> fst ` set fs2" if "p \<in> fst ` set fs3" for p
      proof -
        from that have "map_of fs3 p \<noteq> None" by (simp add: map_of_eq_None_iff)
        then have "map_of fs2 p \<noteq> None" by (simp add: m3 split: if_splits)
        then show ?thesis by (simp add: map_of_eq_None_iff)
      qed
      have 1: "replace_mov f \<noteq> f \<longrightarrow> map_of fs3 ?F = None"
        using nF2 by (simp add: m3 map_of_eq_None_iff)
      have 2: "map_of fs3 ?G = Some (File c)" using m2 g by (simp add: m3)
      have 3: "\<not> empty_dir fs3 ?T" by (simp add: empty_dir_def m3)
      have 5: "replace_mov f = f \<longrightarrow>
         (\<forall>n. dir @ [n] \<in> fst ` set fs3 \<longrightarrow> n = f \<or> dir @ [n] \<in> fst ` set fs)"
        using old k3 by blast
      from 1 2 3 st 5 show ?thesis unfolding e by blast
    qed
  qed
qed


lemma staged_lookup:
  assumes "fs_ensureDir fs (dir @ [''temp_output'']) = Inr fs1"
  shows "map_of (AList.update (dir @ [''temp_output'', b]) (File c) fs1) (dir @ [''temp_output'', b])
           = Some (File c)"
    and "n \<noteq> ''temp_output'' \<Longrightarrow>
         map_of (AList.update (dir @ [''temp_output'', b]) (File c) fs1) (dir @ [n])
           = map_of fs (dir @ [n])"
    and "n \<noteq> ''temp_output'' \<Longrightarrow>
         dir @ [n] \<in> fst ` set (AList.update (dir @ [''temp_output'', b]) (File c) fs1) \<Longrightarrow>
         dir @ [n] \<in> fst ` set fs"
  using fs_ensureDir_Inr [OF assms] by (simp_all add: update_conv' dom_update)




text \<open>
  C10: the batch selects a name whose lowercased form ends in .mov, while the final path
  of clobber mode replaces a literal .mov at the end only. For a selected name that does
  not end in lowercase .mov the final path is the original path, the turn whose
  compression succeeds leaves the compressed output under the original name, and no name
  ending in .mp4 is in the directory that was not there before.
\<close>

theorem uppercase_extension_keeps_name:
  assumes "f \<in> set (select_mov fs dir)" and "\<not> endsWith f ''.mov''"
    and "c_result (compressVideo (path_string (dir @ [f])) (answers (dir @ [f])) 0) = Inr c"
    and "process_file dir force True answers fs f = Inr (st, fs')"
  shows "endsWith (toLowerCase f) ''.mov'' \<and>
     dirname (dir @ [f]) @ [replace_mov (basename (dir @ [f]))] = dir @ [f] \<and>
     st = CompressedFile \<and>
     map_of fs' (dir @ [f]) = Some (File c) \<and>
     (\<forall>n. endsWith n ''.mp4'' \<and> fs_exists fs' (dir @ [n]) \<longrightarrow> fs_exists fs (dir @ [n]))"
proof -
  from assms(1) have l: "endsWith (toLowerCase f) ''.mov''" by (simp add: select_mov_def)
  then have t: "f \<noteq> ''temp_output''" by (rule temp_output_not_mov)
  from assms(2) have same: "replace_mov f = f" by (simp add: replace_mov_def)
  let ?b = "basename_ext f ''.mov'' @ ''.mp4''"
  from process_file_clobber_success [OF assms(3,4)] obtain fs1
    where e: "fs_ensureDir fs (dir @ [''temp_output'']) = Inr fs1"
      and r: "(st, fs') = replace_original
          (AList.update (dir @ [''temp_output'', ?b]) (File c) fs1) (dir @ [f])
          (dir @ [''temp_output'', ?b])"
    by blast
  from t same have g: "replace_mov f \<noteq> ''temp_output''" by simp
  note p = replace_original_props [OF r staged_lookup(1) [OF e] t g]
  from p same have 1: "st = CompressedFile" and 2: "map_of fs' (dir @ [f]) = Some (File c)"
    by simp_all
  from p same have 3: "\<forall>n. dir @ [n] \<in> fst ` set fs' \<longrightarrow> n = f \<or>
      dir @ [n] \<in> fst ` set (AList.update (dir @ [''temp_output'', ?b]) (File c) fs1)"
    by blast
  have 4: "fs_exists fs (dir @ [n])" if n: "endsWith n ''.mp4'' \<and> fs_exists fs' (dir @ [n])" for n
  proof -
    from n have nf: "n \<noteq> f" using mp4_not_mov l by blast
    from n have nt: "n \<noteq> ''temp_output''" using mp4_not_temp_output by blast
    from n have "dir @ [n] \<in> fst ` set fs'" by (simp add: fs_exists_keys)
    with 3 nf have "dir @ [n] \<in> fst ` set (AList.update (dir @ [''temp_output'', ?b]) (File c) fs1)"
      by blast
    from staged_lookup(3) [OF e nt this] show ?thesis by (simp add: fs_exists_keys)
  qed
  have 5: "dirname (dir @ [f]) @ [replace_mov (basename (dir @ [f]))] = dir @ [f]"
    by (simp add: dirname_def basename_def same)
  from l 5 1 2 4 show ?thesis by blast
qed

theorem uppercase_extension_keeps_name_witness:
  "''B.MOV'' \<in> set (select_mov sample_fs [''videos'']) \<and> \<not> endsWith ''B.MOV'' ''.mov'' \<and>
   c_result (compressVideo (path_string [''videos'', ''B.MOV''])
       (good_answers [''videos'', ''B.MOV'']) 0) = Inr ''small'' \<and>
   process_file [''videos''] False True good_answers sample_fs ''B.MOV''
     = Inr (CompressedFile, sample_fs_after_B) \<and>
   map_of sample_fs [''videos'', ''B.MOV''] = Some (File ''large b'') \<and>
   map_of sample_fs_after_B [''videos'', ''B.MOV''] = Some (File ''small'') \<and>
   endsWith ''old.mp4'' ''.mp4'' \<and> fs_exists sample_fs_after_B [''videos'', ''old.mp4''] \<and>
   fs_exists sample_fs [''videos'', ''old.mp4''] \<and>
   endsWith ''B.mp4'' ''.mp4'' \<and> \<not> fs_exists sample_fs [''videos'', ''B.mp4''] \<and>
   \<not> fs_exists sample_fs_after_B [''videos'', ''B.mp4'']"
proof -
  have s: "''B.MOV'' \<in> set (select_mov sample_fs [''videos''])" by code_simp
  have u: "\<not> endsWith ''B.MOV'' ''.mov''" by code_simp
  have c: "c_result (compressVideo (path_string ([''videos''] @ [''B.MOV'']))
       (good_answers ([''videos''] @ [''B.MOV''])) 0) = Inr ''small''" by code_simp
  have p: "process_file [''videos''] False True good_answers sample_fs ''B.MOV''
     = Inr (CompressedFile, sample_fs_after_B)" by code_simp
  have b: "map_of sample_fs ([''videos''] @ [''B.MOV'']) = Some (File ''large b'')" by code_simp
  have o: "endsWith ''old.mp4'' ''.mp4''" "endsWith ''B.mp4'' ''.mp4''"
    "fs_exists sample_fs_after_B ([''videos''] @ [''old.mp4''])"
    "\<not> fs_exists sample_fs ([''videos''] @ [''B.mp4''])"
    by code_simp+
  have x: "[''videos''] @ [''B.MOV''] = [''videos'', ''B.MOV'']"
    "[''videos''] @ [''old.mp4''] = [''videos'', ''old.mp4'']"
    "[''videos''] @ [''B.mp4''] = [''videos'', ''B.mp4'']"
    by simp_all
  note t = uppercase_extension_keeps_name [OF s u c p]
  from t have 1: "map_of sample_fs_after_B ([''videos''] @ [''B.MOV'']) = Some (File ''small'')"
    by blast
  from t o have 2: "fs_exists sample_fs ([''videos''] @ [''old.mp4''])" by blast
  from t o have 3: "\<not> fs_exists sample_fs_after_B ([''videos''] @ [''B.mp4''])" by blast
  from s u c p b o 1 2 3 show ?thesis unfolding x by blast
qed

end
